theory Spec2Isabelle
  imports Complex_Main "HOL-Library.Multiset"
begin

text \<open>
  A shallow embedding of the two analytical modules of the SQL Analyst Pack:
  the RFM customer segmentation (\<open>01_customer_segmentation.py\<close>) and the sales
  forecasting (\<open>02_sales_forecasting.py\<close>). Data frames are lists of records,
  one record per row, in index order. Python floats are modelled by exact rationals;
  where a float operation leaves the finite numbers (division by zero, the mean of
  nothing) the model says so explicitly. Exceptions are values of a sum type.
  The calls into pandas, numpy and scipy are modelled by what these libraries compute.
\<close>

chapter \<open>The model\<close>

datatype error = ValueError string | IndexError string

section \<open>Customer segmentation (01\_customer\_segmentation.py)\<close>

subsection \<open>Tables\<close>

text \<open>
  The rows of the frame returned by \<open>extract_customer_data\<close>, of the RFM table, of the
  scored table and of the segment table. Each later table adds columns to the one before.
\<close>

record transaction =
  customer_id :: nat
  order_date :: int
  order_total :: rat
  days_since_order :: rat

record rfm_row =
  rfm_customer :: nat
  Recency :: rat
  Frequency :: nat
  Monetary :: rat

record rfm_scored = rfm_row +
  R_Score :: int
  F_Score :: int
  M_Score :: int
  RFM_Score :: string

record rfm_segment = rfm_scored +
  Segment :: string

subsection \<open>\<open>calculate_rfm_metrics\<close>\<close>

text \<open>
  \<open>DataFrame.round(2)\<close> rounds to two decimals, halves to the even neighbour. The
  model rounds the exact rational; the source rounds the double nearest to it, which
  can fall on the other side of a half (the double nearest to 1.015 lies below it).
\<close>

definition round_half_even :: "rat \<Rightarrow> int" where
  "round_half_even y =
     (let f = \<lfloor>y\<rfloor>; d = y - of_int f
      in if d < 1 / 2 then f else if d > 1 / 2 then f + 1
         else if even f then f else f + 1)"

definition round2 :: "rat \<Rightarrow> rat" where
  "round2 x = of_int (round_half_even (x * 100)) / 100"

text \<open>
  \<open>groupby('customer_id').agg(...)\<close>: one row per customer that occurs, in ascending
  order of the key; the minimum of \<open>days_since_order\<close>, the number of orders and the
  sum of \<open>order_total\<close>. The function has no check of its input and no \<open>raise\<close>.
\<close>

definition calculate_rfm_metrics :: "transaction list \<Rightarrow> rfm_row list" where
  "calculate_rfm_metrics df =
     map (\<lambda>c. let g = filter (\<lambda>t. customer_id t = c) df;
                  ds = map days_since_order g
              in \<lparr>rfm_customer = c,
                  Recency = round2 (fold min (tl ds) (hd ds)),
                  Frequency = length g,
                  Monetary = round2 (sum_list (map order_total g))\<rparr>)
         (sort (remdups (map customer_id df)))"

subsection \<open>\<open>create_rfm_scores\<close>\<close>

text \<open>
  \<open>pd.qcut(x, q, labels)\<close>. The bin edges are the quantiles of \<open>x\<close> at
  \<open>0, 1/q, ..., 1\<close>, each interpolated linearly between the two neighbouring order
  statistics. Edges that are not pairwise different raise \<open>ValueError\<close> (so does a
  column with no value at all, whose edges are all undefined). A value is put into
  the bin whose right-closed interval holds it: its bin number is the number of edges
  strictly below it (\<open>searchsorted\<close> from the left), and the minimum is put into the
  first bin. The label of the bin is returned for each value, in the order of \<open>x\<close>.
  The quantile positions are the exact fractions \<open>k/q\<close> of \<open>n - 1\<close>; the source
  takes them from \<open>np.linspace\<close> in doubles, where a position that is a whole number
  in exact arithmetic can come out a little beside it. That needs a number of rows
  \<open>n\<close> with \<open>n - 1\<close> divisible by five; the cohorts used below have 5 and 100 rows.
\<close>

definition quantile_linear :: "rat list \<Rightarrow> rat \<Rightarrow> rat" where
  "quantile_linear s q =
     (let idx = q * of_nat (length s - 1);
          lo = nat \<lfloor>idx\<rfloor>;
          fraction = idx - of_nat lo
      in if fraction = 0 then s ! lo
         else s ! lo + (s ! (lo + 1) - s ! lo) * fraction)"

definition bin_id :: "rat list \<Rightarrow> rat \<Rightarrow> nat" where
  "bin_id bins v = (if v = hd bins then 1 else length (filter (\<lambda>e. e < v) bins))"

definition qcut :: "rat list \<Rightarrow> nat \<Rightarrow> int list \<Rightarrow> error + int list" where
  "qcut x q labels =
     (if x = [] then Inl (ValueError ''Bin edges must be unique'')
      else let s = sort x;
               bins = map (\<lambda>k. quantile_linear s (of_nat k / of_nat q)) [0..<q + 1]
           in if \<not> distinct bins then Inl (ValueError ''Bin edges must be unique'')
              else Inr (map (\<lambda>v. labels ! (bin_id bins v - 1)) x))"

text \<open>
  \<open>Series.rank(method='first')\<close>: the rank of a value is one more than the number of
  smaller values plus the number of equal values that stand before it in the column.
\<close>

definition rank_first :: "rat list \<Rightarrow> rat list" where
  "rank_first xs =
     map (\<lambda>i. of_nat (1 + length (filter (\<lambda>y. y < xs ! i) xs)
                         + length (filter (\<lambda>y. y = xs ! i) (take i xs))))
         [0..<length xs]"

text \<open>
  The three score columns, as the source computes them: recency on the raw values with
  the labels reversed, frequency on the ranks, monetary on the raw values.
\<close>

definition r_score_column :: "rfm_row list \<Rightarrow> error + int list" where
  "r_score_column rfm = qcut (map Recency rfm) 5 [5, 4, 3, 2, 1]"

definition f_score_column :: "rfm_row list \<Rightarrow> error + int list" where
  "f_score_column rfm =
     qcut (rank_first (map (\<lambda>row. of_nat (Frequency row)) rfm)) 5 [1, 2, 3, 4, 5]"

definition m_score_column :: "rfm_row list \<Rightarrow> error + int list" where
  "m_score_column rfm = qcut (map Monetary rfm) 5 [1, 2, 3, 4, 5]"

text \<open>\<open>str\<close> of a score; the scores are single digits.\<close>

definition str_int :: "int \<Rightarrow> string" where
  "str_int n = (if 0 \<le> n \<and> n \<le> 9 then [char_of (48 + n)] else ''?'')"

definition add_scores :: "rfm_row \<Rightarrow> int \<Rightarrow> int \<Rightarrow> int \<Rightarrow> rfm_scored" where
  "add_scores row r f m =
     \<lparr>rfm_customer = rfm_customer row, Recency = Recency row, Frequency = Frequency row,
      Monetary = Monetary row, R_Score = r, F_Score = f, M_Score = m,
      RFM_Score = str_int r @ str_int f @ str_int m\<rparr>"

definition create_rfm_scores :: "rfm_row list \<Rightarrow> error + rfm_scored list" where
  "create_rfm_scores rfm_df =
     (case r_score_column rfm_df of Inl e \<Rightarrow> Inl e | Inr rs \<Rightarrow>
      (case f_score_column rfm_df of Inl e \<Rightarrow> Inl e | Inr fs \<Rightarrow>
       (case m_score_column rfm_df of Inl e \<Rightarrow> Inl e | Inr ms \<Rightarrow>
          Inr (map (\<lambda>(row, r, f, m). add_scores row r f m)
                   (zip rfm_df (zip rs (zip fs ms)))))))"

subsection \<open>The segment classifier \<open>assign_segment\<close>\<close>

text \<open>
  \<open>assign_segment\<close> is the local function of \<open>create_customer_segments\<close>. It reads the
  three scores of a row and walks an \<open>if\<close>/\<open>elif\<close> chain; the value returned is a
  Python string. The scores are Python integers, so the model takes any \<open>int\<close>.
\<close>

definition assign_segment :: "int \<Rightarrow> int \<Rightarrow> int \<Rightarrow> string" where
  "assign_segment r f m =
     (if r \<ge> 4 \<and> f \<ge> 4 \<and> m \<ge> 4 then ''Champions''
      else if r \<ge> 3 \<and> f \<ge> 4 then ''Loyal Customers''
      else if r \<ge> 4 \<and> f \<ge> 2 \<and> f \<le> 3 then ''Potential Loyalists''
      else if r \<ge> 4 \<and> f \<le> 2 then ''New Customers''
      else if r \<ge> 3 \<and> f \<ge> 2 \<and> f \<le> 3 then ''Promising''
      else if r \<ge> 2 \<and> r \<le> 3 then ''Need Attention''
      else if r \<ge> 2 \<and> f \<ge> 2 then ''About to Sleep''
      else if f \<ge> 4 \<and> m \<ge> 4 then ''At Risk''
      else if m \<ge> 4 then ''Cannot Lose Them''
      else ''Hibernating'')"

definition add_segment :: "rfm_scored \<Rightarrow> rfm_segment" where
  "add_segment row =
     \<lparr>rfm_customer = rfm_customer row, Recency = Recency row, Frequency = Frequency row,
      Monetary = Monetary row, R_Score = R_Score row, F_Score = F_Score row,
      M_Score = M_Score row, RFM_Score = RFM_Score row,
      Segment = assign_segment (R_Score row) (F_Score row) (M_Score row)\<rparr>"

definition create_customer_segments :: "rfm_scored list \<Rightarrow> rfm_segment list" where
  "create_customer_segments rfm_scores = map add_segment rfm_scores"

subsection \<open>\<open>run_complete_analysis\<close>\<close>

text \<open>
  The run takes the extracted transactions through the aggregator, the scorer and the
  classifier, one call after the other with nothing in between; an exception of a step
  ends the run. The model follows the run through these steps, 2 to 4 of the source,
  and its value is the segment table as it stands after step 4. The later steps
  (per-segment statistics, dashboard, recommendation texts) are not modelled, so the
  model says nothing about what the run returns once the scorer has succeeded.
\<close>

definition run_complete_analysis :: "transaction list \<Rightarrow> error + rfm_segment list" where
  "run_complete_analysis customer_data =
     (let rfm_metrics = calculate_rfm_metrics customer_data
      in case create_rfm_scores rfm_metrics of
           Inl e \<Rightarrow> Inl e
         | Inr rfm_scores \<Rightarrow> Inr (create_customer_segments rfm_scores))"

subsection \<open>The specification's vocabulary\<close>

text \<open>
  The specification's view of the classifier: the ten named segments, and the
  cascade of section 4.3 as an ordered table of (condition, segment) pairs that is
  scanned from the top; the tenth rule is the default of the scan.
\<close>

definition segment_names :: "string list" where
  "segment_names =
     [''Champions'', ''Loyal Customers'', ''Potential Loyalists'', ''New Customers'',
      ''Promising'', ''Need Attention'', ''About to Sleep'', ''At Risk'',
      ''Cannot Lose Them'', ''Hibernating'']"

type_synonym score_triple = "int \<times> int \<times> int"

definition spec_cascade :: "((score_triple \<Rightarrow> bool) \<times> string) list" where
  "spec_cascade =
     [(\<lambda>(r, f, m). r \<ge> 4 \<and> f \<ge> 4 \<and> m \<ge> 4, ''Champions''),
      (\<lambda>(r, f, m). r \<ge> 3 \<and> f \<ge> 4, ''Loyal Customers''),
      (\<lambda>(r, f, m). r \<ge> 4 \<and> 2 \<le> f \<and> f \<le> 3, ''Potential Loyalists''),
      (\<lambda>(r, f, m). r \<ge> 4 \<and> f \<le> 2, ''New Customers''),
      (\<lambda>(r, f, m). r \<ge> 3 \<and> 2 \<le> f \<and> f \<le> 3, ''Promising''),
      (\<lambda>(r, f, m). 2 \<le> r \<and> r \<le> 3, ''Need Attention''),
      (\<lambda>(r, f, m). r \<ge> 2 \<and> f \<ge> 2, ''About to Sleep''),
      (\<lambda>(r, f, m). f \<ge> 4 \<and> m \<ge> 4, ''At Risk''),
      (\<lambda>(r, f, m). m \<ge> 4, ''Cannot Lose Them'')]"

fun first_match :: "(('a \<Rightarrow> bool) \<times> string) list \<Rightarrow> string \<Rightarrow> 'a \<Rightarrow> string" where
  "first_match [] dflt x = dflt"
| "first_match ((p, s) # rules) dflt x = (if p x then s else first_match rules dflt x)"

definition spec_classify :: "score_triple \<Rightarrow> string" where
  "spec_classify t = first_match spec_cascade ''Hibernating'' t"

text \<open>
  The position of a value in its cohort: how many values of the column lie strictly
  below it. Quintile binning by rank puts a customer of a hundred into bin
  \<open>1 + position div 20\<close>.
\<close>

definition rank_below :: "rat list \<Rightarrow> rat \<Rightarrow> nat" where
  "rank_below xs v = length (filter (\<lambda>y. y < v) xs)"

text \<open>
  Cohorts used as concrete inputs below: a hundred customers with pairwise different
  values on every metric; a hundred customers whose last order lies seven days back
  for all of them, with pairwise different frequencies and monetary values; five
  customers with a tie on the monetary value.
\<close>

definition cohort_100 :: "rfm_row list" where
  "cohort_100 = map (\<lambda>i. \<lparr>rfm_customer = i, Recency = of_nat i, Frequency = i + 1,
                           Monetary = of_nat i * 10\<rparr>) [0..<100]"

definition cohort_tied_recency :: "rfm_row list" where
  "cohort_tied_recency =
     map (\<lambda>i. \<lparr>rfm_customer = i, Recency = 7, Frequency = i + 1,
               Monetary = of_nat i * 10\<rparr>) [0..<100]"

definition cohort_ties :: "rfm_row list" where
  "cohort_ties =
     [\<lparr>rfm_customer = 1, Recency = 1, Frequency = 1, Monetary = 1\<rparr>,
      \<lparr>rfm_customer = 2, Recency = 2, Frequency = 1, Monetary = 2\<rparr>,
      \<lparr>rfm_customer = 3, Recency = 3, Frequency = 1, Monetary = 2\<rparr>,
      \<lparr>rfm_customer = 4, Recency = 4, Frequency = 1, Monetary = 3\<rparr>,
      \<lparr>rfm_customer = 5, Recency = 5, Frequency = 1, Monetary = 4\<rparr>]"

section \<open>Sales forecasting (02\_sales\_forecasting.py)\<close>

subsection \<open>Float results\<close>

text \<open>
  A numpy float is a finite number, an infinity or not-a-number. Finite numbers are
  exact rationals here (no rounding, no signed zero). The arithmetic on the other
  values is that of IEEE 754, which numpy follows without raising: a finite number
  divided by zero is an infinity of its sign, zero divided by zero is not-a-number.
\<close>

datatype fval = Fin rat | PInf | NInf | NaN

fun fneg :: "fval \<Rightarrow> fval" where
  "fneg (Fin a) = Fin (- a)"
| "fneg PInf = NInf"
| "fneg NInf = PInf"
| "fneg NaN = NaN"

fun fadd :: "fval \<Rightarrow> fval \<Rightarrow> fval" where
  "fadd NaN _ = NaN"
| "fadd _ NaN = NaN"
| "fadd (Fin a) (Fin b) = Fin (a + b)"
| "fadd PInf NInf = NaN"
| "fadd NInf PInf = NaN"
| "fadd PInf _ = PInf"
| "fadd _ PInf = PInf"
| "fadd NInf _ = NInf"
| "fadd _ NInf = NInf"

definition fsub :: "fval \<Rightarrow> fval \<Rightarrow> fval" where
  "fsub a b = fadd a (fneg b)"

definition inf_of_sign :: "bool \<Rightarrow> fval" where
  "inf_of_sign positive = (if positive then PInf else NInf)"

fun fmul :: "fval \<Rightarrow> fval \<Rightarrow> fval" where
  "fmul NaN _ = NaN"
| "fmul _ NaN = NaN"
| "fmul (Fin a) (Fin b) = Fin (a * b)"
| "fmul (Fin a) PInf = (if a = 0 then NaN else inf_of_sign (a > 0))"
| "fmul (Fin a) NInf = (if a = 0 then NaN else inf_of_sign (a < 0))"
| "fmul PInf (Fin b) = (if b = 0 then NaN else inf_of_sign (b > 0))"
| "fmul NInf (Fin b) = (if b = 0 then NaN else inf_of_sign (b < 0))"
| "fmul PInf PInf = PInf"
| "fmul PInf NInf = NInf"
| "fmul NInf PInf = NInf"
| "fmul NInf NInf = PInf"

fun fdiv :: "fval \<Rightarrow> fval \<Rightarrow> fval" where
  "fdiv NaN _ = NaN"
| "fdiv _ NaN = NaN"
| "fdiv (Fin a) (Fin b) =
     (if b \<noteq> 0 then Fin (a / b) else if a = 0 then NaN else inf_of_sign (a > 0))"
| "fdiv (Fin a) _ = Fin 0"
| "fdiv PInf (Fin b) = inf_of_sign (b \<ge> 0)"
| "fdiv NInf (Fin b) = inf_of_sign (b < 0)"
| "fdiv _ _ = NaN"

text \<open>Comparison with a number; every comparison with not-a-number is false.\<close>

fun fgt :: "fval \<Rightarrow> rat \<Rightarrow> bool" where
  "fgt (Fin a) c = (a > c)"
| "fgt PInf c = True"
| "fgt NInf c = False"
| "fgt NaN c = False"

text \<open>\<open>np.maximum(v, 0)\<close>: not-a-number stays.\<close>

fun fmax0 :: "fval \<Rightarrow> fval" where
  "fmax0 (Fin a) = Fin (max a 0)"
| "fmax0 PInf = PInf"
| "fmax0 NInf = Fin 0"
| "fmax0 NaN = NaN"

text \<open>A value is negative when it is a finite number below zero or minus infinity.\<close>

fun is_negative :: "fval \<Rightarrow> bool" where
  "is_negative (Fin a) = (a < 0)"
| "is_negative NInf = True"
| "is_negative _ = False"

text \<open>A value is defined when it is a finite number.\<close>

fun is_finite :: "fval \<Rightarrow> bool" where
  "is_finite (Fin a) = True"
| "is_finite _ = False"

text \<open>\<open>Series.mean()\<close>: the mean of no values is not-a-number.\<close>

definition mean :: "rat list \<Rightarrow> fval" where
  "mean xs = (if xs = [] then NaN else Fin (sum_list xs / of_nat (length xs)))"

subsection \<open>Calendar\<close>

text \<open>
  A date is the number of days since 1970-01-01 in the proleptic Gregorian calendar
  (the day count behind a pandas timestamp at midnight). The calendar fields are those
  of \<open>DatetimeIndex\<close>: \<open>dayofweek\<close> counts from Monday = 0, the week is the ISO week.
\<close>

definition civil :: "int \<Rightarrow> int \<times> int \<times> int" where
  "civil d =
     (let z = d + 719468;
          era = z div 146097;
          doe = z - era * 146097;
          yoe = (doe - doe div 1460 + doe div 36524 - doe div 146096) div 365;
          doy = doe - (365 * yoe + yoe div 4 - yoe div 100);
          mp = (5 * doy + 2) div 153;
          dd = doy - (153 * mp + 2) div 5 + 1;
          mm = (if mp < 10 then mp + 3 else mp - 9);
          yy = yoe + era * 400 + (if mm \<le> 2 then 1 else 0)
      in (yy, mm, dd))"

definition year_of :: "int \<Rightarrow> int" where "year_of d = fst (civil d)"
definition month_of :: "int \<Rightarrow> int" where "month_of d = fst (snd (civil d))"
definition day_of :: "int \<Rightarrow> int" where "day_of d = snd (snd (civil d))"

definition dayofweek :: "int \<Rightarrow> int" where
  "dayofweek d = (d + 3) mod 7"

definition is_leap :: "int \<Rightarrow> bool" where
  "is_leap y = (y mod 4 = 0 \<and> (y mod 100 \<noteq> 0 \<or> y mod 400 = 0))"

definition days_in_month :: "int \<Rightarrow> int \<Rightarrow> int" where
  "days_in_month y m =
     (if m = 2 then (if is_leap y then 29 else 28)
      else if m = 4 \<or> m = 6 \<or> m = 9 \<or> m = 11 then 30 else 31)"

definition dayofyear :: "int \<Rightarrow> int" where
  "dayofyear d =
     (let y = year_of d; m = month_of d
      in sum_list (map (days_in_month y) [1..m - 1]) + day_of d)"

definition iso_weeks_in_year :: "int \<Rightarrow> int" where
  "iso_weeks_in_year y =
     (let p = (\<lambda>y. (y + y div 4 - y div 100 + y div 400) mod 7)
      in if p y = 4 \<or> p (y - 1) = 3 then 53 else 52)"

definition iso_week :: "int \<Rightarrow> int" where
  "iso_week d =
     (let y = year_of d;
          w = (dayofyear d - (dayofweek d + 1) + 10) div 7
      in if w < 1 then iso_weeks_in_year (y - 1)
         else if w > iso_weeks_in_year y then 1 else w)"

definition bool_int :: "bool \<Rightarrow> int" where
  "bool_int b = (if b then 1 else 0)"

subsection \<open>\<open>prepare_time_series\<close>\<close>

text \<open>
  The rows of the frame returned by \<open>extract_sales_data\<close>, and the rows of the prepared
  series, whose index is \<open>date\<close>.
\<close>

record sales_row =
  date :: int
  daily_sales :: rat
  order_count :: int
  avg_order_value :: rat

record ts_row = sales_row +
  year :: int
  month :: int
  day_of_week :: int
  day_of_year :: int
  week_of_year :: int
  is_weekend :: int
  is_month_start :: int
  is_month_end :: int
  sales_lag_1 :: fval
  sales_lag_7 :: fval
  sales_lag_30 :: fval
  sales_ma_7 :: fval
  sales_ma_30 :: fval
  sales_ma_90 :: fval
  sales_growth_7d :: fval
  sales_growth_30d :: fval

definition list_min :: "int list \<Rightarrow> int" where
  "list_min xs = fold min (tl xs) (hd xs)"

definition list_max :: "int list \<Rightarrow> int" where
  "list_max xs = fold max (tl xs) (hd xs)"

text \<open>
  \<open>reindex(full_date_range, fill_value=0)\<close>: the row of the date where the input has
  one, a row of zeros where it has none.
\<close>

definition reindex_row :: "sales_row list \<Rightarrow> int \<Rightarrow> sales_row" where
  "reindex_row df d =
     (case find (\<lambda>r. date r = d) df of
        Some r \<Rightarrow> r
      | None \<Rightarrow> \<lparr>date = d, daily_sales = 0, order_count = 0, avg_order_value = 0\<rparr>)"

text \<open>\<open>shift(k)\<close>, \<open>rolling(window=w).mean()\<close> and \<open>pct_change(k)\<close> at position \<open>i\<close>.\<close>

definition shift :: "nat \<Rightarrow> rat list \<Rightarrow> nat \<Rightarrow> fval" where
  "shift k xs i = (if i < k then NaN else Fin (xs ! (i - k)))"

definition rolling_mean :: "nat \<Rightarrow> rat list \<Rightarrow> nat \<Rightarrow> fval" where
  "rolling_mean w xs i =
     (if i + 1 < w then NaN else mean (take w (drop (i + 1 - w) xs)))"

definition pct_change :: "nat \<Rightarrow> rat list \<Rightarrow> nat \<Rightarrow> fval" where
  "pct_change k xs i = fsub (fdiv (Fin (xs ! i)) (shift k xs i)) (Fin 1)"

definition add_features :: "rat list \<Rightarrow> nat \<Rightarrow> sales_row \<Rightarrow> ts_row" where
  "add_features sales i r =
     (let d = date r in
      \<lparr>date = d, daily_sales = daily_sales r, order_count = order_count r,
       avg_order_value = avg_order_value r,
       year = year_of d,
       month = month_of d,
       day_of_week = dayofweek d,
       day_of_year = dayofyear d,
       week_of_year = iso_week d,
       is_weekend = bool_int (dayofweek d \<in> {5, 6}),
       is_month_start = bool_int (day_of d = 1),
       is_month_end = bool_int (day_of d = days_in_month (year_of d) (month_of d)),
       sales_lag_1 = shift 1 sales i,
       sales_lag_7 = shift 7 sales i,
       sales_lag_30 = shift 30 sales i,
       sales_ma_7 = rolling_mean 7 sales i,
       sales_ma_30 = rolling_mean 30 sales i,
       sales_ma_90 = rolling_mean 90 sales i,
       sales_growth_7d = fmul (pct_change 7 sales i) (Fin 100),
       sales_growth_30d = fmul (pct_change 30 sales i) (Fin 100)\<rparr>)"

text \<open>
  The minimum and the maximum of an empty index are no dates, and \<open>date_range\<close>
  refuses them; \<open>reindex\<close> refuses an index that holds a date twice.
\<close>

definition prepare_time_series :: "sales_row list \<Rightarrow> error + ts_row list" where
  "prepare_time_series df =
     (if df = [] then Inl (ValueError ''Neither start nor end can be NaT'')
      else if \<not> distinct (map date df)
        then Inl (ValueError ''cannot reindex on an axis with duplicate labels'')
      else let full_date_range = [list_min (map date df)..list_max (map date df)];
               filled = map (reindex_row df) full_date_range;
               sales = map daily_sales filled
           in Inr (map (\<lambda>i. add_features sales i (filled ! i)) [0..<length filled]))"

subsection \<open>\<open>stats.linregress\<close>\<close>

text \<open>
  The least-squares line through the points \<open>(x, y)\<close>. Empty input is refused, and so
  are two or more points with one and the same \<open>x\<close>. A single point is accepted: its
  slope is zero divided by zero. Of the five results the slope, the intercept and the
  square of the correlation coefficient are modelled (the coefficient is set to zero
  where its denominator vanishes). The refusal of empty input and the zero
  coefficient of a constant series are those of the scipy releases that raise
  \<open>Inputs must not be empty\<close>; later releases answer not-a-number in both cases. The
  prepared series is never empty, and nothing below depends on the coefficient.
\<close>

definition linregress :: "rat list \<Rightarrow> rat list \<Rightarrow> error + (fval \<times> fval \<times> rat)" where
  "linregress x y =
     (if x = [] \<or> y = [] then Inl (ValueError ''Inputs must not be empty.'')
      else if length x > 1 \<and> (\<forall>v \<in> set x. v = hd x)
        then Inl (ValueError ''Cannot calculate a linear regression if all x values are identical'')
      else let n = of_nat (length x);
               xmean = sum_list x / n;
               ymean = sum_list y / n;
               ssxm = sum_list (map (\<lambda>v. (v - xmean) * (v - xmean)) x) / n;
               ssym = sum_list (map (\<lambda>v. (v - ymean) * (v - ymean)) y) / n;
               ssxym = sum_list (map (\<lambda>(u, v). (u - xmean) * (v - ymean)) (zip x y)) / n;
               r_squared = (if ssxm = 0 \<or> ssym = 0 then 0
                            else ssxym * ssxym / (ssxm * ssym));
               slope = fdiv (Fin ssxym) (Fin ssxm);
               intercept = fsub (Fin ymean) (fmul slope (Fin xmean))
           in Inr (slope, intercept, r_squared))"

text \<open>\<open>np.arange(a, b)\<close> as floats.\<close>

definition arange :: "nat \<Rightarrow> nat \<Rightarrow> rat list" where
  "arange a b = map of_nat [a..<b]"

subsection \<open>\<open>analyze_trends\<close>\<close>

text \<open>
  \<open>groupby(key)['daily_sales'].mean()\<close>: the keys that occur, ascending, each with the
  mean of its rows. \<open>idxmax\<close> and \<open>idxmin\<close> give the first key of the largest and of
  the smallest mean.
\<close>

definition group_means :: "(ts_row \<Rightarrow> int) \<Rightarrow> ts_row list \<Rightarrow> (int \<times> rat) list" where
  "group_means key ts =
     map (\<lambda>k. let g = map daily_sales (filter (\<lambda>r. key r = k) ts)
              in (k, sum_list g / of_nat (length g)))
         (sort (remdups (map key ts)))"

definition rat_max :: "rat list \<Rightarrow> rat" where
  "rat_max xs = fold max (tl xs) (hd xs)"

definition rat_min :: "rat list \<Rightarrow> rat" where
  "rat_min xs = fold min (tl xs) (hd xs)"

definition idxmax :: "(int \<times> rat) list \<Rightarrow> int" where
  "idxmax kv = fst (hd (filter (\<lambda>p. snd p = rat_max (map snd kv)) kv))"

definition idxmin :: "(int \<times> rat) list \<Rightarrow> int" where
  "idxmin kv = fst (hd (filter (\<lambda>p. snd p = rat_min (map snd kv)) kv))"

definition day_names :: "string list" where
  "day_names = [''Monday'', ''Tuesday'', ''Wednesday'', ''Thursday'', ''Friday'',
                ''Saturday'', ''Sunday'']"

text \<open>\<open>tail(n)\<close> and the slice \<open>iloc[-60:-30]\<close>.\<close>

definition tail :: "nat \<Rightarrow> 'a list \<Rightarrow> 'a list" where
  "tail n xs = drop (length xs - n) xs"

definition iloc_m60_m30 :: "'a list \<Rightarrow> 'a list" where
  "iloc_m60_m30 xs = drop (length xs - 60) (take (length xs - 30) xs)"

record trends =
  trend_slope :: fval
  trend_r_squared :: rat
  direction :: string
  strength :: string
  best_month :: int
  worst_month :: int
  monthly_variation :: fval
  best_day :: string
  worst_day :: string
  weekend_vs_weekday :: fval
  last_30d_growth :: fval
  current_avg :: fval
  previous_avg :: fval

text \<open>
  The growth figure of the source:
  \<open>(recent_30d - previous_30d) / previous_30d * 100 if previous_30d > 0 else 0\<close>.
\<close>

definition growth_30d :: "fval \<Rightarrow> fval \<Rightarrow> fval" where
  "growth_30d recent_30d previous_30d =
     (if fgt previous_30d 0
      then fmul (fdiv (fsub recent_30d previous_30d) previous_30d) (Fin 100)
      else Fin 0)"

text \<open>
  The strength of the trend compares the absolute value of the correlation coefficient
  with 0.7 and 0.3; the model compares its square with 0.49 and 0.09. The p-value of
  the fit is not modelled.
\<close>

definition analyze_trends :: "ts_row list \<Rightarrow> error + trends" where
  "analyze_trends ts_df =
     (let y = map daily_sales ts_df;
          x = arange 0 (length ts_df)
      in case linregress x y of
           Inl e \<Rightarrow> Inl e
         | Inr (slope, intercept, r2) \<Rightarrow>
             (let monthly_avg = group_means month ts_df;
                  dow_avg = group_means day_of_week ts_df;
                  mvals = map snd monthly_avg;
                  recent_30d = mean (tail 30 y);
                  previous_30d = mean (iloc_m60_m30 y)
              in Inr
                \<lparr>trend_slope = slope,
                 trend_r_squared = r2,
                 direction = (if fgt slope 0 then ''Increasing'' else ''Decreasing''),
                 strength = (if r2 > 49 / 100 then ''Strong''
                             else if r2 > 9 / 100 then ''Moderate'' else ''Weak''),
                 best_month = idxmax monthly_avg,
                 worst_month = idxmin monthly_avg,
                 monthly_variation =
                   fmul (fdiv (Fin (rat_max mvals - rat_min mvals)) (mean mvals)) (Fin 100),
                 best_day = day_names ! nat (idxmax dow_avg),
                 worst_day = day_names ! nat (idxmin dow_avg),
                 weekend_vs_weekday =
                   fdiv (mean (map daily_sales (filter (\<lambda>r. is_weekend r = 1) ts_df)))
                        (mean (map daily_sales (filter (\<lambda>r. is_weekend r = 0) ts_df))),
                 last_30d_growth = growth_30d recent_30d previous_30d,
                 current_avg = recent_30d,
                 previous_avg = previous_30d\<rparr>))"

subsection \<open>The three forecasts\<close>

text \<open>
  The horizon \<open>forecast_days\<close> is a number of days. \<open>iloc[-1]\<close> of an empty series
  raises \<open>IndexError\<close>.
\<close>

definition simple_moving_average_forecast :: "ts_row list \<Rightarrow> nat \<Rightarrow> nat \<Rightarrow> error + fval list" where
  "simple_moving_average_forecast ts_df forecast_days window =
     (if ts_df = [] then Inl (IndexError ''single positional indexer is out-of-bounds'')
      else let last_ma = rolling_mean window (map daily_sales ts_df) (length ts_df - 1)
           in Inr (replicate forecast_days last_ma))"

definition linear_trend_forecast :: "ts_row list \<Rightarrow> nat \<Rightarrow> error + fval list" where
  "linear_trend_forecast ts_df forecast_days =
     (let recent_data = tail 90 (map daily_sales ts_df);
          x = arange 0 (length recent_data)
      in case linregress x recent_data of
           Inl e \<Rightarrow> Inl e
         | Inr (slope, intercept, r2) \<Rightarrow>
             (let future_x = arange (length recent_data) (length recent_data + forecast_days);
                  forecast = map (\<lambda>fx. fadd (fmul slope (Fin fx)) intercept) future_x
              in Inr (map fmax0 forecast)))"

text \<open>
  The seasonal factors are the group means divided by the overall mean, with no check
  of the divisor; \<open>Series.get(key, 1.0)\<close> answers 1.0 for a key that does not occur.
\<close>

definition factors :: "(int \<Rightarrow> int) \<Rightarrow> ts_row list \<Rightarrow> fval \<Rightarrow> (int \<times> fval) list" where
  "factors key ts_df overall_mean =
     map (\<lambda>(k, v). (k, fdiv (Fin v) overall_mean)) (group_means (\<lambda>r. key (date r)) ts_df)"

definition get_factor :: "(int \<times> fval) list \<Rightarrow> int \<Rightarrow> fval" where
  "get_factor fs k = (case map_of fs k of Some v \<Rightarrow> v | None \<Rightarrow> Fin 1)"

definition seasonal_forecast :: "ts_row list \<Rightarrow> nat \<Rightarrow> error + fval list" where
  "seasonal_forecast ts_df forecast_days =
     (let overall_mean = mean (map daily_sales ts_df);
          monthly_factors = factors month_of ts_df overall_mean;
          dow_factors = factors dayofweek ts_df overall_mean
      in case linear_trend_forecast ts_df forecast_days of
           Inl e \<Rightarrow> Inl e
         | Inr base_forecast \<Rightarrow>
             (let forecast_dates = map (\<lambda>i. date (last ts_df) + 1 + int i) [0..<forecast_days]
              in Inr (map (\<lambda>(i, d).
                        let month_factor = get_factor monthly_factors (month_of d);
                            dow_factor = get_factor dow_factors (dayofweek d);
                            seasonal_factor = fdiv (fadd month_factor dow_factor) (Fin 2)
                        in fmul (base_forecast ! i) seasonal_factor)
                      (zip [0..<forecast_days] forecast_dates))))"

subsection \<open>Dense series\<close>

text \<open>
  A series is dense when it has exactly one point for every calendar day from its
  first date to its last: no date twice, no day missing. The base columns of a
  prepared row are the four columns of the input frame.
\<close>

definition dense :: "sales_row list \<Rightarrow> bool" where
  "dense df \<longleftrightarrow>
     df \<noteq> [] \<and> distinct (map date df)
     \<and> list_all (\<lambda>d. d \<in> set (map date df))
                [list_min (map date df)..list_max (map date df)]"

text \<open>The rows of the frame after \<open>reindex\<close>, before the features are added.\<close>

definition filled_rows :: "sales_row list \<Rightarrow> sales_row list" where
  "filled_rows df = map (reindex_row df) [list_min (map date df)..list_max (map date df)]"

definition base_row :: "ts_row \<Rightarrow> sales_row" where
  "base_row r = \<lparr>date = date r, daily_sales = daily_sales r, order_count = order_count r,
                  avg_order_value = avg_order_value r\<rparr>"

subsection \<open>Concrete inputs\<close>

text \<open>
  Sales on two Saturdays only (2024-01-06 and 2024-01-13); two days without revenue;
  two ordinary days (2024-01-01 and 2024-01-02); three days of falling sales.
\<close>

definition saturdays_only :: "sales_row list" where
  "saturdays_only =
     [\<lparr>date = 19728, daily_sales = 100, order_count = 2, avg_order_value = 50\<rparr>,
      \<lparr>date = 19735, daily_sales = 100, order_count = 1, avg_order_value = 100\<rparr>]"

definition zero_days :: "sales_row list" where
  "zero_days =
     [\<lparr>date = 19728, daily_sales = 0, order_count = 1, avg_order_value = 0\<rparr>,
      \<lparr>date = 19729, daily_sales = 0, order_count = 1, avg_order_value = 0\<rparr>]"

definition two_days :: "sales_row list" where
  "two_days =
     [\<lparr>date = 19723, daily_sales = 10, order_count = 1, avg_order_value = 10\<rparr>,
      \<lparr>date = 19724, daily_sales = 20, order_count = 2, avg_order_value = 10\<rparr>]"

definition declining_days :: "sales_row list" where
  "declining_days =
     [\<lparr>date = 19728, daily_sales = 100, order_count = 4, avg_order_value = 25\<rparr>,
      \<lparr>date = 19729, daily_sales = 50, order_count = 2, avg_order_value = 25\<rparr>,
      \<lparr>date = 19730, daily_sales = 0, order_count = 1, avg_order_value = 0\<rparr>]"

text \<open>Thirty-one days from 2024-01-01: sales of \<open>p\<close> on the first day, of 20 on each later day.\<close>

definition first_then_twenty :: "rat \<Rightarrow> sales_row list" where
  "first_then_twenty p =
     map (\<lambda>i. \<lparr>date = 19723 + int i, daily_sales = (if i = 0 then p else 20),
               order_count = 1, avg_order_value = (if i = 0 then p else 20)\<rparr>) [0..<31]"

text \<open>The frame a run analyses: the prepared series, or nothing when preparing fails.\<close>

definition prepared :: "sales_row list \<Rightarrow> ts_row list" where
  "prepared df = (case prepare_time_series df of Inl e \<Rightarrow> [] | Inr ts \<Rightarrow> ts)"

chapter \<open>Properties\<close>

section \<open>The segment classifier\<close>

lemma assign_segment_eq_cascade: "assign_segment r f m = spec_classify (r, f, m)"
  by (simp add: assign_segment_def spec_classify_def spec_cascade_def)

lemma assign_segment_in_names: "assign_segment r f m \<in> set segment_names"
  by (simp add: assign_segment_def segment_names_def)

lemma segment_names_distinct: "distinct segment_names \<and> length segment_names = 10"
  by (simp add: segment_names_def)

text \<open>
  Claim C1. The classifier is a total function of the three scores alone. For every
  triple (in particular every triple with components in 1..5) its value is one of the
  ten, pairwise different, segment names, and it is the value found by scanning the
  ten-rule cascade of the specification from the top and stopping at the first rule
  whose condition holds, the tenth rule catching everything left. The triple (5,5,5)
  is classified Champions and (5,5,1) Loyal Customers.
\<close>

theorem assign_segment_cascade_total:
  "assign_segment r f m = spec_classify (r, f, m)
   \<and> assign_segment r f m \<in> set segment_names
   \<and> distinct segment_names \<and> length segment_names = 10
   \<and> assign_segment 5 5 5 = ''Champions''
   \<and> assign_segment 5 5 1 = ''Loyal Customers''
   \<and> assign_segment 5 5 1 \<noteq> ''Champions''"
proof -
  have "assign_segment 5 5 5 = ''Champions''"
    by (simp add: assign_segment_def)
  moreover have "assign_segment 5 5 1 = ''Loyal Customers''"
    by (simp add: assign_segment_def)
  ultimately show ?thesis
    using assign_segment_eq_cascade assign_segment_in_names segment_names_distinct
    by simp
qed

text \<open>
  Claim C9. The classifier never answers About to Sleep, for all integer scores and
  so for all scores in 1..5. The reason is the one the claim gives: a triple with r at
  least 4 is taken by one of the rules 1 to 4, a triple with r equal to 2 or 3 by one
  of the rules 2, 5 and 6, and what is left has r below 2, where the seventh condition
  is false.
\<close>

theorem about_to_sleep_unreachable:
  "assign_segment r f m \<noteq> ''About to Sleep''
   \<and> (4 \<le> r \<longrightarrow> assign_segment r f m \<in> set (take 4 segment_names))
   \<and> (2 \<le> r \<and> r \<le> 3 \<longrightarrow>
        assign_segment r f m \<in> {''Loyal Customers'', ''Promising'', ''Need Attention''})
   \<and> (r < 2 \<longrightarrow> \<not> (r \<ge> 2 \<and> f \<ge> 2))"
  by (auto simp add: assign_segment_def segment_names_def)

theorem about_to_sleep_unreachable_witness:
  "assign_segment 5 3 2 \<in> set (take 4 segment_names)
   \<and> assign_segment 2 5 5 \<in> {''Loyal Customers'', ''Promising'', ''Need Attention''}
   \<and> assign_segment 1 5 5 \<noteq> ''About to Sleep''"
  using about_to_sleep_unreachable [of 5 3 2] about_to_sleep_unreachable [of 2 5 5]
    about_to_sleep_unreachable [of 1 5 5]
  by simp

text \<open>
  Claim C10. For scores in 1..5 the classifier answers New Customers exactly when
  r is at least 4 and f is 1.
\<close>

theorem new_customers_iff:
  assumes "1 \<le> r" "r \<le> 5" "1 \<le> f" "f \<le> 5" "1 \<le> m" "m \<le> 5"
  shows "assign_segment r f m = ''New Customers'' \<longleftrightarrow> r \<ge> 4 \<and> f = 1"
  using assms by (auto simp add: assign_segment_def)

theorem new_customers_iff_witness:
  "assign_segment 4 1 3 = ''New Customers'' \<and> assign_segment 5 2 3 \<noteq> ''New Customers''"
  using new_customers_iff [of 4 1 3] new_customers_iff [of 5 2 3] by simp

section \<open>The quantile scorer\<close>

subsection \<open>Strictly sorted columns\<close>

lemma strict_sorted_nth_less:
  fixes s :: "rat list"
  assumes "sorted s" "distinct s" "i < j" "j < length s"
  shows "s ! i < s ! j"
proof -
  have "s ! i \<le> s ! j" using assms by (simp add: sorted_nth_mono)
  moreover have "s ! i \<noteq> s ! j" using assms by (simp add: nth_eq_iff_index_eq)
  ultimately show ?thesis by simp
qed

lemma strict_sorted_nth_less_iff:
  fixes s :: "rat list"
  assumes "sorted s" "distinct s" "i < length s" "j < length s"
  shows "s ! i < s ! j \<longleftrightarrow> i < j"
proof
  assume "s ! i < s ! j"
  show "i < j"
  proof (rule ccontr)
    assume "\<not> i < j"
    then have "j \<le> i" by simp
    then have "s ! j \<le> s ! i" using assms by (simp add: sorted_nth_mono)
    with \<open>s ! i < s ! j\<close> show False by simp
  qed
next
  assume "i < j" then show "s ! i < s ! j" using assms strict_sorted_nth_less by blast
qed

lemma filter_less_upt: "filter (\<lambda>k. k < i) [0..<n] = [0..<min i n]"
proof (induction n)
  case 0
  then show ?case by simp
next
  case (Suc n)
  show ?case
  proof (cases "n < i")
    case True
    then have "min i (Suc n) = Suc (min i n)" by (simp add: min_def)
    with Suc True show ?thesis by simp
  next
    case False
    then have "min i (Suc n) = min i n" by (simp add: min_def)
    with Suc False show ?thesis by simp
  qed
qed

lemma count_less_strict_sorted:
  fixes s :: "rat list"
  assumes "sorted s" "distinct s" "i < length s"
  shows "length (filter (\<lambda>y. y < s ! i) s) = i"
proof -
  have "filter (\<lambda>y. y < s ! i) s = filter (\<lambda>y. y < s ! i) (map (\<lambda>k. s ! k) [0..<length s])"
    by (simp add: map_nth)
  also have "\<dots> = map (\<lambda>k. s ! k) (filter (\<lambda>k. s ! k < s ! i) [0..<length s])"
    by (simp add: filter_map comp_def)
  also have "filter (\<lambda>k. s ! k < s ! i) [0..<length s] = filter (\<lambda>k. k < i) [0..<length s]"
    by (rule filter_cong) (use assms strict_sorted_nth_less_iff in auto)
  also have "\<dots> = [0..<i]"
    using assms(3) by (simp add: filter_less_upt)
  finally show ?thesis by simp
qed

lemma floor_99: "\<lfloor>(99::rat) / 5\<rfloor> = 19" "\<lfloor>(198::rat) / 5\<rfloor> = 39"
   "\<lfloor>(297::rat) / 5\<rfloor> = 59" "\<lfloor>(396::rat) / 5\<rfloor> = 79"
  by (rule floor_unique; simp)+

lemma bins_100:
  assumes "length s = 100"
  shows "map (\<lambda>k. quantile_linear s (of_nat k / of_nat 5)) [0..<5 + 1]
         = [s ! 0,
            s ! 19 + (s ! 20 - s ! 19) * (4 / 5),
            s ! 39 + (s ! 40 - s ! 39) * (3 / 5),
            s ! 59 + (s ! 60 - s ! 59) * (2 / 5),
            s ! 79 + (s ! 80 - s ! 79) * (1 / 5),
            s ! 99]"
proof -
  have u: "[0..<5 + 1] = [0, 1, 2, 3, 4, 5::nat]"
    by (simp add: upt_rec)
  show ?thesis
    unfolding u by (simp add: quantile_linear_def assms Let_def floor_99)
qed

lemma interp_between:
  fixes a b t :: rat
  assumes "a < b" "0 < t" "t < 1"
  shows "a < a + (b - a) * t" "a + (b - a) * t < b"
proof -
  have "0 < (b - a) * t" using assms by simp
  then show "a < a + (b - a) * t" by simp
  have "(b - a) * t < (b - a) * 1" using assms by (intro mult_strict_left_mono) simp_all
  then show "a + (b - a) * t < b" by simp
qed

lemma edge_less_iff:
  fixes s :: "rat list"
  assumes "sorted s" "distinct s" "Suc lo < length s" "i < length s" "0 < t" "t < 1"
  shows "s ! lo + (s ! Suc lo - s ! lo) * t < s ! i \<longleftrightarrow> lo < i"
proof -
  have lt: "s ! lo < s ! Suc lo" using assms strict_sorted_nth_less by simp
  note b = interp_between[OF lt assms(5,6)]
  show ?thesis
  proof (cases "lo < i")
    case True
    then have "s ! Suc lo \<le> s ! i" using assms by (simp add: sorted_nth_mono)
    with b True show ?thesis by simp
  next
    case False
    then have "s ! i \<le> s ! lo" using assms by (simp add: sorted_nth_mono)
    with b False show ?thesis by simp
  qed
qed

lemma bin_id_100:
  fixes s :: "rat list"
  assumes "sorted s" "distinct s" "length s = 100" "i < 100"
  shows "bin_id [s ! 0,
            s ! 19 + (s ! 20 - s ! 19) * (4 / 5),
            s ! 39 + (s ! 40 - s ! 39) * (3 / 5),
            s ! 59 + (s ! 60 - s ! 59) * (2 / 5),
            s ! 79 + (s ! 80 - s ! 79) * (1 / 5),
            s ! 99] (s ! i) = 1 + i div 20"
proof -
  have e0: "s ! 0 < s ! i \<longleftrightarrow> 0 < i"
    using strict_sorted_nth_less_iff[of s 0 i] assms by simp
  have z: "s ! i = s ! 0 \<longleftrightarrow> i = 0"
    using assms by (simp add: nth_eq_iff_index_eq)
  have e1: "s ! 19 + (s ! 20 - s ! 19) * (4 / 5) < s ! i \<longleftrightarrow> 19 < i"
    using edge_less_iff[of s 19 i "4/5"] assms by simp
  have e2: "s ! 39 + (s ! 40 - s ! 39) * (3 / 5) < s ! i \<longleftrightarrow> 39 < i"
    using edge_less_iff[of s 39 i "3/5"] assms by simp
  have e3: "s ! 59 + (s ! 60 - s ! 59) * (2 / 5) < s ! i \<longleftrightarrow> 59 < i"
    using edge_less_iff[of s 59 i "2/5"] assms by simp
  have e4: "s ! 79 + (s ! 80 - s ! 79) * (1 / 5) < s ! i \<longleftrightarrow> 79 < i"
    using edge_less_iff[of s 79 i "1/5"] assms by simp
  have e5: "s ! 99 < s ! i \<longleftrightarrow> False"
    using strict_sorted_nth_less_iff[of s 99 i] assms by simp
  have "i div 20 = (if 79 < i then 4 else if 59 < i then 3 else if 39 < i then 2 else if 19 < i then 1 else 0)"
    using assms(4) by auto
  then show ?thesis
    unfolding bin_id_def by (simp only: filter.simps e0 e1 e2 e3 e4 e5 z list.sel) auto
qed

subsection \<open>Binning a hundred pairwise different values\<close>

lemma length_filter_sort:
  fixes x :: "rat list"
  shows "length (filter P (sort x)) = length (filter P x)"
proof -
  have "size (mset (filter P (sort x))) = size (mset (filter P x))"
    by (simp only: mset_filter mset_sort)
  then show ?thesis by (simp only: size_mset)
qed

lemma rank_below_sort: "rank_below (sort x) v = rank_below x v"
  by (simp add: rank_below_def length_filter_sort)

lemma rank_below_sorted_nth:
  assumes "distinct x" "i < length x"
  shows "rank_below x (sort x ! i) = i"
proof -
  have "rank_below (sort x) (sort x ! i) = i"
    unfolding rank_below_def using assms by (intro count_less_strict_sorted) simp_all
  then show ?thesis by (simp add: rank_below_sort)
qed

lemma in_set_sorted_nth:
  fixes x :: "rat list"
  assumes "v \<in> set x"
  obtains i where "i < length x" "v = sort x ! i"
proof -
  from assms have "v \<in> set (sort x)" by simp
  then obtain i where "i < length (sort x)" "sort x ! i = v"
    unfolding in_set_conv_nth by blast
  then show ?thesis using that by simp
qed

lemma bins_100_distinct:
  fixes s :: "rat list"
  assumes "sorted s" "distinct s" "length s = 100"
  shows "distinct [s ! 0,
            s ! 19 + (s ! 20 - s ! 19) * (4 / 5),
            s ! 39 + (s ! 40 - s ! 39) * (3 / 5),
            s ! 59 + (s ! 60 - s ! 59) * (2 / 5),
            s ! 79 + (s ! 80 - s ! 79) * (1 / 5),
            s ! 99]"
proof -
  define e1 where "e1 = s ! 19 + (s ! 20 - s ! 19) * (4 / 5)"
  define e2 where "e2 = s ! 39 + (s ! 40 - s ! 39) * (3 / 5)"
  define e3 where "e3 = s ! 59 + (s ! 60 - s ! 59) * (2 / 5)"
  define e4 where "e4 = s ! 79 + (s ! 80 - s ! 79) * (1 / 5)"
  have lt: "\<And>i j. i < j \<Longrightarrow> j < 100 \<Longrightarrow> s ! i < s ! j"
    using strict_sorted_nth_less assms by simp
  have b1: "s ! 19 < e1" "e1 < s ! 20"
    unfolding e1_def using interp_between[of "s ! 19" "s ! 20" "4/5"] lt[of 19 20] by simp_all
  have b2: "s ! 39 < e2" "e2 < s ! 40"
    unfolding e2_def using interp_between[of "s ! 39" "s ! 40" "3/5"] lt[of 39 40] by simp_all
  have b3: "s ! 59 < e3" "e3 < s ! 60"
    unfolding e3_def using interp_between[of "s ! 59" "s ! 60" "2/5"] lt[of 59 60] by simp_all
  have b4: "s ! 79 < e4" "e4 < s ! 80"
    unfolding e4_def using interp_between[of "s ! 79" "s ! 80" "1/5"] lt[of 79 80] by simp_all
  have c: "s ! 0 < s ! 19" "s ! 20 < s ! 39" "s ! 40 < s ! 59" "s ! 60 < s ! 79" "s ! 80 < s ! 99"
    using lt by simp_all
  have "distinct [s ! 0, e1, e2, e3, e4, s ! 99]"
    using b1 b2 b3 b4 c by auto
  then show ?thesis unfolding e1_def e2_def e3_def e4_def .
qed

lemma qcut_100:
  assumes "length x = 100" "distinct x"
  shows "qcut x 5 labels = Inr (map (\<lambda>v. labels ! (rank_below x v div 20)) x)"
proof -
  let ?s = "sort x"
  define bins where "bins = map (\<lambda>k. quantile_linear ?s (of_nat k / of_nat 5)) [0..<5 + 1]"
  have s: "sorted ?s" "distinct ?s" "length ?s = 100" using assms by simp_all
  have ne: "x \<noteq> []" using assms by auto
  have bin: "bin_id bins v - 1 = rank_below x v div 20" if "v \<in> set x" for v
  proof -
    from that obtain i where i: "i < length x" "v = ?s ! i" by (rule in_set_sorted_nth)
    then have "i < 100" using assms by simp
    then have "bin_id bins v = 1 + i div 20"
      unfolding bins_def bins_100[OF s(3)] i(2) by (intro bin_id_100 s)
    moreover have "rank_below x v = i" using i assms rank_below_sorted_nth by simp
    ultimately show ?thesis by simp
  qed
  have d: "distinct bins"
    unfolding bins_def bins_100[OF s(3)] by (intro bins_100_distinct s)
  have "qcut x 5 labels = Inr (map (\<lambda>v. labels ! (bin_id bins v - 1)) x)"
    unfolding qcut_def Let_def bins_def[symmetric] using ne d by simp
  also have "map (\<lambda>v. labels ! (bin_id bins v - 1)) x
             = map (\<lambda>v. labels ! (rank_below x v div 20)) x"
    by (rule map_cong[OF refl]) (simp only: bin)
  finally show ?thesis .
qed

lemma count_div20: "b < 5 \<Longrightarrow> length (filter (\<lambda>i. i div 20 = b) [0..<100]) = 20"
proof -
  assume "b < 5"
  then consider "b = 0" | "b = 1" | "b = 2" | "b = 3" | "b = 4" by linarith
  then show ?thesis
    by cases (simp_all, code_simp+)
qed

lemma count_bins_100:
  assumes "length x = 100" "distinct x" "b < 5"
  shows "length (filter (\<lambda>v. rank_below x v div 20 = b) x) = 20"
proof -
  let ?s = "sort x"
  have "length (filter (\<lambda>v. rank_below x v div 20 = b) x)
        = length (filter (\<lambda>v. rank_below x v div 20 = b) ?s)"
    by (simp add: length_filter_sort)
  also have "?s = map (\<lambda>i. ?s ! i) [0..<100]"
    using assms map_nth[of ?s] by simp
  also have "length (filter (\<lambda>v. rank_below x v div 20 = b) (map (\<lambda>i. ?s ! i) [0..<100]))
        = length (filter (\<lambda>i. rank_below x (?s ! i) div 20 = b) [0..<100])"
    by (simp add: filter_map comp_def)
  also have "filter (\<lambda>i. rank_below x (?s ! i) div 20 = b) [0..<100]
        = filter (\<lambda>i. i div 20 = b) [0..<100]"
    by (rule filter_cong) (use assms rank_below_sorted_nth in auto)
  finally show ?thesis using count_div20[OF assms(3)] by simp
qed

subsection \<open>Binning the ranks\<close>

lemma rank_below_less_iff:
  assumes "distinct xs" "u \<in> set xs" "v \<in> set xs"
  shows "rank_below xs u < rank_below xs v \<longleftrightarrow> u < v"
proof -
  from assms(2) obtain i where i: "i < length xs" "u = sort xs ! i" by (rule in_set_sorted_nth)
  from assms(3) obtain j where j: "j < length xs" "v = sort xs ! j" by (rule in_set_sorted_nth)
  have "rank_below xs u = i" "rank_below xs v = j"
    using i j assms(1) rank_below_sorted_nth by simp_all
  moreover have "sort xs ! i < sort xs ! j \<longleftrightarrow> i < j"
    using i j assms(1) by (intro strict_sorted_nth_less_iff) simp_all
  ultimately show ?thesis using i j by simp
qed

lemma rank_first_distinct:
  assumes "distinct xs"
  shows "rank_first xs = map (\<lambda>v. of_nat (1 + rank_below xs v)) xs"
proof -
  have "filter (\<lambda>y. y = xs ! i) (take i xs) = []" if "i < length xs" for i
  proof -
    have "xs ! i \<notin> set (take i xs)"
      using assms that by (auto simp: in_set_conv_nth nth_eq_iff_index_eq)
    then show ?thesis by (auto simp: filter_empty_conv)
  qed
  then have "rank_first xs = map (\<lambda>i. of_nat (1 + rank_below xs (xs ! i))) [0..<length xs]"
    unfolding rank_first_def rank_below_def by (intro map_cong) simp_all
  also have "\<dots> = map (\<lambda>v. of_nat (1 + rank_below xs v)) (map (\<lambda>i. xs ! i) [0..<length xs])"
    by (simp add: comp_def)
  finally show ?thesis by (simp add: map_nth)
qed

lemma qcut_rank_first_100:
  assumes "length xs = 100" "distinct xs"
  shows "qcut (rank_first xs) 5 labels = Inr (map (\<lambda>v. labels ! (rank_below xs v div 20)) xs)"
proof -
  define g :: "rat \<Rightarrow> rat" where "g = (\<lambda>v. of_nat (1 + rank_below xs v))"
  have rf: "rank_first xs = map g xs"
    unfolding g_def using assms(2) by (rule rank_first_distinct)
  have mono: "g u < g v \<longleftrightarrow> u < v" if "u \<in> set xs" "v \<in> set xs" for u v
    unfolding g_def using rank_below_less_iff[OF assms(2) that] by simp
  have "inj_on g (set xs)"
  proof (rule inj_onI)
    fix u v assume uv: "u \<in> set xs" "v \<in> set xs" "g u = g v"
    then have "\<not> u < v" "\<not> v < u" using mono[of u v] mono[of v u] by simp_all
    then show "u = v" by simp
  qed
  then have d: "distinct (map g xs)" using assms(2) by (simp add: distinct_map)
  have rb: "rank_below (map g xs) (g v) = rank_below xs v" if "v \<in> set xs" for v
  proof -
    have "filter (\<lambda>u. g u < g v) xs = filter (\<lambda>u. u < v) xs"
      by (rule filter_cong) (use that mono in auto)
    then show ?thesis by (simp add: rank_below_def filter_map comp_def)
  qed
  have "qcut (map g xs) 5 labels
          = Inr (map (\<lambda>r. labels ! (rank_below (map g xs) r div 20)) (map g xs))"
    using assms(1) d by (intro qcut_100) simp_all
  also have "map (\<lambda>r. labels ! (rank_below (map g xs) r div 20)) (map g xs)
          = map (\<lambda>v. labels ! (rank_below (map g xs) (g v) div 20)) xs"
    by (simp add: comp_def)
  also have "\<dots> = map (\<lambda>v. labels ! (rank_below xs v div 20)) xs"
    by (rule map_cong[OF refl]) (simp only: rb)
  finally show ?thesis using rf by simp
qed

lemma rank_below_less_length:
  assumes "distinct x" "v \<in> set x"
  shows "rank_below x v < length x"
proof -
  from assms(2) obtain i where "i < length x" "v = sort x ! i" by (rule in_set_sorted_nth)
  then show ?thesis using rank_below_sorted_nth[OF assms(1)] by simp
qed

lemma count_list_map_filter: "count_list (map h xs) c = length (filter (\<lambda>v. h v = c) xs)"
  by (induction xs) simp_all

lemma scores_100:
  assumes "length x = 100" "distinct x" "distinct labels" "length labels = 5"
  defines "sc \<equiv> map (\<lambda>v. labels ! (rank_below x v div 20)) x"
  shows "length sc = 100"
    and "k < 5 \<Longrightarrow> count_list sc (labels ! k) = 20"
    and "i < 100 \<Longrightarrow> k < 5 \<Longrightarrow> sc ! i = labels ! k \<longleftrightarrow> rank_below x (x ! i) div 20 = k"
proof -
  have lt5: "rank_below x v div 20 < 5" if "v \<in> set x" for v
    using rank_below_less_length[OF assms(2) that] assms(1) by simp
  have eq: "labels ! (rank_below x v div 20) = labels ! k \<longleftrightarrow> rank_below x v div 20 = k"
    if "v \<in> set x" "k < 5" for v k
    using lt5[OF that(1)] that(2) assms(3,4) by (simp add: nth_eq_iff_index_eq)
  show "length sc = 100" by (simp add: sc_def assms(1))
  show "count_list sc (labels ! k) = 20" if "k < 5"
  proof -
    have "filter (\<lambda>v. labels ! (rank_below x v div 20) = labels ! k) x
          = filter (\<lambda>v. rank_below x v div 20 = k) x"
      by (rule filter_cong) (use eq that in auto)
    then show ?thesis
      unfolding sc_def count_list_map_filter using count_bins_100[OF assms(1,2) that] by simp
  qed
  show "sc ! i = labels ! k \<longleftrightarrow> rank_below x (x ! i) div 20 = k" if "i < 100" "k < 5"
  proof -
    have "x ! i \<in> set x" using that assms(1) by simp
    then show ?thesis unfolding sc_def using eq that assms(1) by simp
  qed
qed

lemma qcut_length: "qcut x q labels = Inr sc \<Longrightarrow> length sc = length x"
  by (auto simp: qcut_def Let_def split: if_splits)

lemma create_rfm_scores_Inr:
  assumes "create_rfm_scores rfm = Inr scored"
  shows "r_score_column rfm = Inr (map R_Score scored)
       \<and> f_score_column rfm = Inr (map F_Score scored)
       \<and> m_score_column rfm = Inr (map M_Score scored)
       \<and> map rfm_row.truncate scored = map rfm_row.truncate rfm"
proof -
  from assms obtain rs fs ms where
    c: "r_score_column rfm = Inr rs" "f_score_column rfm = Inr fs" "m_score_column rfm = Inr ms"
    and sc: "scored = map (\<lambda>(row, r, f, m). add_scores row r f m) (zip rfm (zip rs (zip fs ms)))"
    by (auto simp: create_rfm_scores_def split: sum.splits)
  have len: "length rs = length rfm" "length fs = length rfm" "length ms = length rfm"
    using c qcut_length[of _ 5 _ rs] qcut_length[of _ 5 _ fs] qcut_length[of _ 5 _ ms]
    by (auto simp: r_score_column_def f_score_column_def m_score_column_def rank_first_def)
  have "map R_Score scored = rs" "map F_Score scored = fs" "map M_Score scored = ms"
    "map rfm_row.truncate scored = map rfm_row.truncate rfm"
    unfolding sc using len
    by (auto intro!: nth_equalityI simp: add_scores_def rfm_row.truncate_def)
  with c show ?thesis by simp
qed

text \<open>
  The three score columns on a hundred rows. A column whose metric has pairwise
  different values is computed without error and gives each of the scores 1..5 to
  exactly 20 customers. A customer has recency score 5 exactly when fewer than 20
  customers have a smaller recency (the 20 most recent), and frequency or monetary
  score 5 exactly when at least 80 customers have a smaller value. The scored table
  carries these columns when \<open>create_rfm_scores\<close> returns, and it returns when all
  three metrics have pairwise different values.
\<close>

lemma quintile_bins_100:
  assumes "length rfm = 100"
  shows "(distinct (map Recency rfm) \<longrightarrow>
            (\<exists>rs. r_score_column rfm = Inr rs \<and> length rs = 100
               \<and> (\<forall>b\<in>{1, 2, 3, 4, 5}. count_list rs b = 20)
               \<and> (\<forall>i<100. rs ! i = 5 \<longleftrightarrow>
                      rank_below (map Recency rfm) (Recency (rfm ! i)) < 20)))
       \<and> (distinct (map Frequency rfm) \<longrightarrow>
            (\<exists>fs. f_score_column rfm = Inr fs \<and> length fs = 100
               \<and> (\<forall>b\<in>{1, 2, 3, 4, 5}. count_list fs b = 20)
               \<and> (\<forall>i<100. fs ! i = 5 \<longleftrightarrow>
                      80 \<le> rank_below (map (\<lambda>row. of_nat (Frequency row)) rfm)
                                      (of_nat (Frequency (rfm ! i))))))
       \<and> (distinct (map Monetary rfm) \<longrightarrow>
            (\<exists>ms. m_score_column rfm = Inr ms \<and> length ms = 100
               \<and> (\<forall>b\<in>{1, 2, 3, 4, 5}. count_list ms b = 20)
               \<and> (\<forall>i<100. ms ! i = 5 \<longleftrightarrow>
                      80 \<le> rank_below (map Monetary rfm) (Monetary (rfm ! i)))))
       \<and> (\<forall>scored. create_rfm_scores rfm = Inr scored \<longrightarrow>
              r_score_column rfm = Inr (map R_Score scored)
            \<and> f_score_column rfm = Inr (map F_Score scored)
            \<and> m_score_column rfm = Inr (map M_Score scored))
       \<and> (distinct (map Recency rfm) \<and> distinct (map Frequency rfm)
            \<and> distinct (map Monetary rfm) \<longrightarrow> (\<exists>scored. create_rfm_scores rfm = Inr scored))"
proof -
  have dn: "distinct [1, 2, 3, 4, 5 :: int]" "distinct [5, 4, 3, 2, 1 :: int]" by simp_all
  have R: "\<exists>rs. r_score_column rfm = Inr rs \<and> length rs = 100
               \<and> (\<forall>b\<in>{1, 2, 3, 4, 5}. count_list rs b = 20)
               \<and> (\<forall>i<100. rs ! i = 5 \<longleftrightarrow>
                      rank_below (map Recency rfm) (Recency (rfm ! i)) < 20)"
    if d: "distinct (map Recency rfm)"
  proof -
    let ?x = "map Recency rfm"
    let ?l = "[5, 4, 3, 2, 1 :: int]"
    let ?sc = "map (\<lambda>v. ?l ! (rank_below ?x v div 20)) ?x"
    have len: "length ?x = 100" using assms by simp
    have q: "r_score_column rfm = Inr ?sc"
      unfolding r_score_column_def by (rule qcut_100[OF len d])
    have ll: "length ?l = 5" by simp
    note s = scores_100[OF len d dn(2) ll]
    have c: "count_list ?sc b = 20" if "b \<in> {1, 2, 3, 4, 5}" for b
      using that s(2)[of 0] s(2)[of 1] s(2)[of 2] s(2)[of 3] s(2)[of 4] by auto
    have r: "?sc ! i = 5 \<longleftrightarrow> rank_below ?x (Recency (rfm ! i)) < 20" if "i < 100" for i
    proof -
      have "?sc ! i = ?l ! 0 \<longleftrightarrow> rank_below ?x (?x ! i) div 20 = 0"
        using that by (intro s(3)) simp_all
      moreover have "n div 20 = 0 \<longleftrightarrow> n < 20" for n :: nat by auto
      ultimately show ?thesis using that assms by simp
    qed
    show ?thesis using q s(1) c r by blast
  qed
  have up: "80 \<le> n \<longleftrightarrow> n div 20 = 4" if "n < 100" for n :: nat
    using that by auto
  have M: "\<exists>ms. m_score_column rfm = Inr ms \<and> length ms = 100
               \<and> (\<forall>b\<in>{1, 2, 3, 4, 5}. count_list ms b = 20)
               \<and> (\<forall>i<100. ms ! i = 5 \<longleftrightarrow>
                      80 \<le> rank_below (map Monetary rfm) (Monetary (rfm ! i)))"
    if d: "distinct (map Monetary rfm)"
  proof -
    let ?x = "map Monetary rfm"
    let ?l = "[1, 2, 3, 4, 5 :: int]"
    let ?sc = "map (\<lambda>v. ?l ! (rank_below ?x v div 20)) ?x"
    have len: "length ?x = 100" using assms by simp
    have q: "m_score_column rfm = Inr ?sc"
      unfolding m_score_column_def by (rule qcut_100[OF len d])
    have ll: "length ?l = 5" by simp
    note s = scores_100[OF len d dn(1) ll]
    have c: "count_list ?sc b = 20" if "b \<in> {1, 2, 3, 4, 5}" for b
      using that s(2)[of 0] s(2)[of 1] s(2)[of 2] s(2)[of 3] s(2)[of 4] by auto
    have r: "?sc ! i = 5 \<longleftrightarrow> 80 \<le> rank_below ?x (Monetary (rfm ! i))" if "i < 100" for i
    proof -
      have "?sc ! i = ?l ! 4 \<longleftrightarrow> rank_below ?x (?x ! i) div 20 = 4"
        using that by (intro s(3)) simp_all
      moreover have "rank_below ?x (?x ! i) < 100"
        using rank_below_less_length[OF d, of "?x ! i"] that len by simp
      ultimately show ?thesis using that assms up by simp
    qed
    show ?thesis using q s(1) c r by blast
  qed
  have F: "\<exists>fs. f_score_column rfm = Inr fs \<and> length fs = 100
               \<and> (\<forall>b\<in>{1, 2, 3, 4, 5}. count_list fs b = 20)
               \<and> (\<forall>i<100. fs ! i = 5 \<longleftrightarrow>
                      80 \<le> rank_below (map (\<lambda>row. of_nat (Frequency row)) rfm)
                                      (of_nat (Frequency (rfm ! i))))"
    if d0: "distinct (map Frequency rfm)"
  proof -
    let ?x = "map (\<lambda>row. (of_nat (Frequency row) :: rat)) rfm"
    let ?l = "[1, 2, 3, 4, 5 :: int]"
    let ?sc = "map (\<lambda>v. ?l ! (rank_below ?x v div 20)) ?x"
    have "?x = map of_nat (map Frequency rfm)" by simp
    then have d: "distinct ?x" using d0 by (simp only: distinct_map) (simp add: inj_on_def)
    have len: "length ?x = 100" using assms by simp
    have q: "f_score_column rfm = Inr ?sc"
      unfolding f_score_column_def by (rule qcut_rank_first_100[OF len d])
    have ll: "length ?l = 5" by simp
    note s = scores_100[OF len d dn(1) ll]
    have c: "count_list ?sc b = 20" if "b \<in> {1, 2, 3, 4, 5}" for b
      using that s(2)[of 0] s(2)[of 1] s(2)[of 2] s(2)[of 3] s(2)[of 4] by auto
    have r: "?sc ! i = 5 \<longleftrightarrow> 80 \<le> rank_below ?x (of_nat (Frequency (rfm ! i)))" if "i < 100" for i
    proof -
      have "?sc ! i = ?l ! 4 \<longleftrightarrow> rank_below ?x (?x ! i) div 20 = 4"
        using that by (intro s(3)) simp_all
      moreover have "rank_below ?x (?x ! i) < 100"
        using rank_below_less_length[OF d, of "?x ! i"] that len by simp
      ultimately show ?thesis using that assms up by simp
    qed
    show ?thesis using q s(1) c r by blast
  qed
  have C: "\<exists>scored. create_rfm_scores rfm = Inr scored"
    if "distinct (map Recency rfm)" "distinct (map Frequency rfm)" "distinct (map Monetary rfm)"
    using R[OF that(1)] F[OF that(2)] M[OF that(3)]
    by (auto simp: create_rfm_scores_def)
  show ?thesis using R F M C create_rfm_scores_Inr by blast
qed

lemma quintile_bins_100_at_cohort_100:
  "length cohort_100 = 100
   \<and> distinct (map Recency cohort_100) \<and> distinct (map Frequency cohort_100)
   \<and> distinct (map Monetary cohort_100)
   \<and> (\<exists>rs. r_score_column cohort_100 = Inr rs \<and> count_list rs 5 = 20 \<and> count_list rs 1 = 20)
   \<and> (\<exists>fs. f_score_column cohort_100 = Inr fs \<and> count_list fs 5 = 20 \<and> count_list fs 1 = 20)
   \<and> (\<exists>ms. m_score_column cohort_100 = Inr ms \<and> count_list ms 5 = 20 \<and> count_list ms 1 = 20)
   \<and> (\<exists>scored. create_rfm_scores cohort_100 = Inr scored
          \<and> r_score_column cohort_100 = Inr (map R_Score scored))"
proof -
  have l: "length cohort_100 = 100" by (simp add: cohort_100_def)
  have "map Recency cohort_100 = map of_nat [0..<100]"
    by (simp add: cohort_100_def comp_def)
  then have dr: "distinct (map Recency cohort_100)"
    by (simp add: distinct_map inj_on_def)
  have "map Frequency cohort_100 = map Suc [0..<100]"
    by (simp add: cohort_100_def comp_def)
  then have df: "distinct (map Frequency cohort_100)"
    by (simp add: distinct_map inj_on_def)
  have "map Monetary cohort_100 = map (\<lambda>i. of_nat i * 10) [0..<100]"
    by (simp add: cohort_100_def comp_def)
  then have dm: "distinct (map Monetary cohort_100)"
    by (simp add: distinct_map inj_on_def)
  note t = quintile_bins_100 [OF l]
  from t dr obtain rs where rs: "r_score_column cohort_100 = Inr rs"
    "\<forall>b \<in> {1, 2, 3, 4, 5}. count_list rs b = 20" by blast
  from t df obtain fs where fs: "f_score_column cohort_100 = Inr fs"
    "\<forall>b \<in> {1, 2, 3, 4, 5}. count_list fs b = 20" by blast
  from t dm obtain ms where ms: "m_score_column cohort_100 = Inr ms"
    "\<forall>b \<in> {1, 2, 3, 4, 5}. count_list ms b = 20" by blast
  from t dr df dm obtain scored where sc: "create_rfm_scores cohort_100 = Inr scored" by blast
  with t have cols: "r_score_column cohort_100 = Inr (map R_Score scored)" by blast
  have "\<exists>rs. r_score_column cohort_100 = Inr rs \<and> count_list rs 5 = 20 \<and> count_list rs 1 = 20"
    using rs by auto
  moreover have "\<exists>fs. f_score_column cohort_100 = Inr fs \<and> count_list fs 5 = 20 \<and> count_list fs 1 = 20"
    using fs by auto
  moreover have "\<exists>ms. m_score_column cohort_100 = Inr ms \<and> count_list ms 5 = 20 \<and> count_list ms 1 = 20"
    using ms by auto
  ultimately show ?thesis using l dr df dm sc cols by blast
qed

subsection \<open>Ties\<close>

text \<open>
  A column binned on its raw values gives equal values equal scores: \<open>qcut\<close> looks at
  a value and the edges, not at the position of the row.
\<close>

lemma qcut_equal_values:
  assumes "qcut x q labels = Inr sc" "i < length x" "j < length x" "x ! i = x ! j"
  shows "sc ! i = sc ! j"
  using assms by (auto simp: qcut_def Let_def split: if_splits)

text \<open>
  Claim C2 (evaluation at a cohort with a tie). Five customers, two of them with the
  same monetary value 2 and all with frequency 1. The frequency column, binned over
  the ranks, separates the tied customers in the order of the rows; the monetary
  column, binned on the raw values, gives both customers of value 2 the score 2 and
  nobody the score 3. Binning the monetary ranks as the frequency column does would
  give the scores 1 to 5. A column of five equal recencies makes the scorer raise.
\<close>

theorem monetary_ties_not_broken:
  "map_sum id (map (\<lambda>row. (R_Score row, F_Score row, M_Score row)))
       (create_rfm_scores cohort_ties)
     = Inr [(5, 1, 1), (4, 2, 2), (3, 3, 2), (2, 4, 4), (1, 5, 5)]
   \<and> m_score_column cohort_ties = Inr [1, 2, 2, 4, 5]
   \<and> f_score_column cohort_ties = Inr [1, 2, 3, 4, 5]
   \<and> r_score_column cohort_ties = Inr [5, 4, 3, 2, 1]
   \<and> qcut (rank_first (map Monetary cohort_ties)) 5 [1, 2, 3, 4, 5] = Inr [1, 2, 3, 4, 5]
   \<and> qcut [7, 7, 7, 7, 7] 5 [5, 4, 3, 2, 1] = Inl (ValueError ''Bin edges must be unique'')
   \<and> qcut (rank_first [7, 7, 7, 7, 7]) 5 [5, 4, 3, 2, 1] = Inr [5, 4, 3, 2, 1]"
  by code_simp

text \<open>
  Claim C5 (evaluation at a cohort with tied recencies). A hundred customers with
  pairwise different monetary values and pairwise different frequencies, all with the
  recency 7. Binned by itself, the monetary column gives each of the scores 1..5 to
  exactly 20 customers, and so does the frequency column. The scorer bins the recency
  column first, on its raw values: all six edges are 7, the binning raises, and
  \<open>create_rfm_scores\<close> ends with this error. No customer gets a monetary or a
  frequency score.
\<close>

theorem tied_recency_blocks_binning:
  "length cohort_tied_recency = 100
   \<and> distinct (map Monetary cohort_tied_recency)
   \<and> distinct (map Frequency cohort_tied_recency)
   \<and> (\<exists>ms. m_score_column cohort_tied_recency = Inr ms
          \<and> count_list ms 1 = 20 \<and> count_list ms 2 = 20 \<and> count_list ms 3 = 20
          \<and> count_list ms 4 = 20 \<and> count_list ms 5 = 20)
   \<and> (\<exists>fs. f_score_column cohort_tied_recency = Inr fs
          \<and> count_list fs 1 = 20 \<and> count_list fs 2 = 20 \<and> count_list fs 3 = 20
          \<and> count_list fs 4 = 20 \<and> count_list fs 5 = 20)
   \<and> r_score_column cohort_tied_recency = Inl (ValueError ''Bin edges must be unique'')
   \<and> create_rfm_scores cohort_tied_recency = Inl (ValueError ''Bin edges must be unique'')"
proof -
  have l: "length cohort_tied_recency = 100" by (simp add: cohort_tied_recency_def)
  have "map Frequency cohort_tied_recency = map Suc [0..<100]"
    by (simp add: cohort_tied_recency_def comp_def)
  then have df: "distinct (map Frequency cohort_tied_recency)"
    by (simp add: distinct_map inj_on_def)
  have "map Monetary cohort_tied_recency = map (\<lambda>i. of_nat i * 10) [0..<100]"
    by (simp add: cohort_tied_recency_def comp_def)
  then have dm: "distinct (map Monetary cohort_tied_recency)"
    by (simp add: distinct_map inj_on_def)
  note t = quintile_bins_100 [OF l]
  from t df obtain fs where fs: "f_score_column cohort_tied_recency = Inr fs"
    "\<forall>b \<in> {1, 2, 3, 4, 5}. count_list fs b = 20" by blast
  from t dm obtain ms where ms: "m_score_column cohort_tied_recency = Inr ms"
    "\<forall>b \<in> {1, 2, 3, 4, 5}. count_list ms b = 20" by blast
  have r: "r_score_column cohort_tied_recency = Inl (ValueError ''Bin edges must be unique'')"
    by code_simp
  then have c: "create_rfm_scores cohort_tied_recency = Inl (ValueError ''Bin edges must be unique'')"
    by (simp add: create_rfm_scores_def)
  have "\<exists>ms. m_score_column cohort_tied_recency = Inr ms
          \<and> count_list ms 1 = 20 \<and> count_list ms 2 = 20 \<and> count_list ms 3 = 20
          \<and> count_list ms 4 = 20 \<and> count_list ms 5 = 20"
    using ms by auto
  moreover have "\<exists>fs. f_score_column cohort_tied_recency = Inr fs
          \<and> count_list fs 1 = 20 \<and> count_list fs 2 = 20 \<and> count_list fs 3 = 20
          \<and> count_list fs 4 = 20 \<and> count_list fs 5 = 20"
    using fs by auto
  ultimately show ?thesis using l df dm r c by blast
qed

section \<open>The complete segmentation run\<close>

lemma calculate_rfm_metrics_Nil: "calculate_rfm_metrics [] = []"
  by (simp add: calculate_rfm_metrics_def)

lemma create_rfm_scores_Nil:
  "create_rfm_scores [] = Inl (ValueError ''Bin edges must be unique'')"
  by (simp add: create_rfm_scores_def r_score_column_def qcut_def)

text \<open>
  Claim C3, as stated, fails at the empty transaction list: the aggregator returns the
  empty table, and the run hands this table to the scorer.
\<close>

theorem empty_input_reaches_scorer:
  "calculate_rfm_metrics [] = []
   \<and> run_complete_analysis [] =
       (case create_rfm_scores [] of Inl e \<Rightarrow> Inl e
        | Inr rfm_scores \<Rightarrow> Inr (create_customer_segments rfm_scores))"
  by (simp add: run_complete_analysis_def calculate_rfm_metrics_Nil)

text \<open>
  Claim C3, amended. On an empty transaction set the aggregator does not fail but
  returns the empty table; the run ends in the scorer, with the error of the quantile
  binning, and returns no segments.
\<close>

theorem empty_input_aborts_in_scorer:
  assumes "customer_data = []"
  shows "calculate_rfm_metrics customer_data = []
       \<and> run_complete_analysis customer_data = Inl (ValueError ''Bin edges must be unique'')"
  using assms
  by (simp add: run_complete_analysis_def calculate_rfm_metrics_Nil create_rfm_scores_Nil)

theorem empty_input_aborts_in_scorer_witness:
  "run_complete_analysis [] = Inl (ValueError ''Bin edges must be unique'')"
  using empty_input_aborts_in_scorer [of "[]"] by simp

section \<open>The time-series preparer\<close>

subsection \<open>The date range and the filled rows\<close>

lemma list_min_Min: "xs \<noteq> [] \<Longrightarrow> list_min xs = Min (set xs)"
proof (cases xs)
  case Nil
  assume "xs \<noteq> []" with Nil show ?thesis by simp
next
  case (Cons a list)
  then show ?thesis using Min.set_eq_fold[of a list] by (simp add: list_min_def)
qed

lemma list_max_Max: "xs \<noteq> [] \<Longrightarrow> list_max xs = Max (set xs)"
proof (cases xs)
  case Nil
  assume "xs \<noteq> []" with Nil show ?thesis by simp
next
  case (Cons a list)
  then show ?thesis using Max.set_eq_fold[of a list] by (simp add: list_max_def)
qed

lemma list_min_max_bounds:
  assumes "d \<in> set xs"
  shows "list_min xs \<le> d" "d \<le> list_max xs"
proof -
  have "xs \<noteq> []" using assms by auto
  then show "list_min xs \<le> d" "d \<le> list_max xs"
    using assms by (simp_all add: list_min_Min list_max_Max)
qed

lemma list_min_max_upto:
  assumes "lo \<le> hi"
  shows "list_min [lo..hi] = lo" "list_max [lo..hi] = hi"
proof -
  have ne: "[lo..hi] \<noteq> []" using assms by (simp add: upto_Nil)
  have "Min {lo..hi} = lo" using assms by (intro Min_eqI) auto
  moreover have "Max {lo..hi} = hi" using assms by (intro Max_eqI) auto
  ultimately show "list_min [lo..hi] = lo" "list_max [lo..hi] = hi"
    using ne by (simp_all add: list_min_Min list_max_Max)
qed

lemma find_distinct_date:
  assumes "distinct (map date df)" "r \<in> set df"
  shows "find (\<lambda>x. date x = date r) df = Some r"
  using assms by (induction df) (auto simp: rev_image_eqI)

lemma reindex_row_present:
  assumes "distinct (map date df)" "r \<in> set df"
  shows "reindex_row df (date r) = r"
  using find_distinct_date[OF assms] by (simp add: reindex_row_def)

lemma date_reindex_row: "date (reindex_row df d) = d"
  by (auto simp: reindex_row_def dest: find_Some_iff[THEN iffD1] split: option.splits)

lemma base_row_add_features: "base_row (add_features sales i r) = r"
  by (simp add: base_row_def add_features_def Let_def)

lemma prepare_time_series_Inr:
  assumes "df \<noteq> []" "distinct (map date df)"
  shows "prepare_time_series df =
           Inr (map (\<lambda>i. add_features (map daily_sales (filled_rows df)) i (filled_rows df ! i))
                    [0..<length (filled_rows df)])"
  using assms by (simp add: prepare_time_series_def filled_rows_def Let_def)

lemma base_rows_prepared:
  "map base_row (map (\<lambda>i. add_features sales i (rows ! i)) [0..<length rows]) = rows"
  by (simp add: base_row_add_features comp_def map_nth)

lemma prepare_time_series_cases:
  "prepare_time_series df = Inr ts \<Longrightarrow> df \<noteq> [] \<and> distinct (map date df)"
  by (auto simp: prepare_time_series_def split: if_splits)

lemma map_date_filled_rows:
  "map date (filled_rows df) = [list_min (map date df)..list_max (map date df)]"
  by (simp add: filled_rows_def comp_def date_reindex_row)

lemma filled_rows_idem:
  assumes "df \<noteq> []"
  shows "filled_rows (filled_rows df) = filled_rows df"
proof -
  let ?lo = "list_min (map date df)" and ?hi = "list_max (map date df)"
  have "hd (map date df) \<in> set (map date df)" using assms by (intro hd_in_set) simp
  then have le: "?lo \<le> ?hi"
    using list_min_max_bounds[of "hd (map date df)" "map date df"] by linarith
  have d: "distinct (map date (filled_rows df))"
    by (simp add: map_date_filled_rows)
  have "filled_rows (filled_rows df) = map (reindex_row (filled_rows df)) [?lo..?hi]"
    unfolding filled_rows_def[of "filled_rows df"] map_date_filled_rows
    using list_min_max_upto[OF le] by simp
  also have "\<dots> = map (reindex_row df) [?lo..?hi]"
  proof (rule map_cong[OF refl])
    fix x assume "x \<in> set [?lo..?hi]"
    then have "reindex_row df x \<in> set (filled_rows df)" by (simp add: filled_rows_def)
    from reindex_row_present[OF d this]
    show "reindex_row (filled_rows df) x = reindex_row df x"
      by (simp add: date_reindex_row)
  qed
  finally show ?thesis by (simp add: filled_rows_def)
qed

lemma filled_rows_Nil_iff:
  assumes "df \<noteq> []"
  shows "filled_rows df \<noteq> []"
proof -
  have "hd (map date df) \<in> set (map date df)" using assms by (intro hd_in_set) simp
  then have "list_min (map date df) \<le> list_max (map date df)"
    using list_min_max_bounds[of "hd (map date df)" "map date df"] by linarith
  then show ?thesis by (simp add: filled_rows_def upto_Nil)
qed

lemma prepare_time_series_idem:
  assumes "prepare_time_series df = Inr ts"
  shows "prepare_time_series (map base_row ts) = Inr ts"
proof -
  from prepare_time_series_cases[OF assms] have v: "df \<noteq> []" "distinct (map date df)" by simp_all
  let ?f = "filled_rows df"
  have ts: "ts = map (\<lambda>i. add_features (map daily_sales ?f) i (?f ! i)) [0..<length ?f]"
    using assms prepare_time_series_Inr[OF v] by simp
  have b: "map base_row ts = ?f" unfolding ts by (rule base_rows_prepared)
  have "?f \<noteq> []" using v(1) by (rule filled_rows_Nil_iff)
  moreover have "distinct (map date ?f)" by (simp add: map_date_filled_rows)
  ultimately have "prepare_time_series ?f =
      Inr (map (\<lambda>i. add_features (map daily_sales (filled_rows ?f)) i (filled_rows ?f ! i))
               [0..<length (filled_rows ?f)])"
    by (rule prepare_time_series_Inr)
  then have "prepare_time_series ?f = Inr ts"
    by (simp only: filled_rows_idem[OF v(1)] ts)
  then show ?thesis by (simp only: b)
qed

lemma dense_dates:
  assumes "dense df"
  shows "set (map date df) = {list_min (map date df)..list_max (map date df)}"
proof -
  have "{list_min (map date df)..list_max (map date df)} \<subseteq> set (map date df)"
    using assms by (auto simp: dense_def list_all_iff)
  moreover have "set (map date df) \<subseteq> {list_min (map date df)..list_max (map date df)}"
    using list_min_max_bounds[of _ "map date df"] by auto
  ultimately show ?thesis by blast
qed

lemma dense_filled_set:
  assumes "dense df"
  shows "set (filled_rows df) = set df"
proof -
  have d: "distinct (map date df)" using assms by (simp add: dense_def)
  have "set (filled_rows df) = reindex_row df ` set (map date df)"
    using dense_dates[OF assms] by (simp add: filled_rows_def)
  also have "\<dots> = (\<lambda>r. reindex_row df (date r)) ` set df" by (simp add: image_image)
  also have "\<dots> = (\<lambda>r. r) ` set df"
    by (rule image_cong[OF refl]) (simp add: reindex_row_present[OF d])
  finally show ?thesis by simp
qed

lemma dense_sorted_filled:
  assumes "dense df" "sorted (map date df)"
  shows "filled_rows df = df"
proof -
  have d: "distinct (map date df)" using assms by (simp add: dense_def)
  have "map date df = [list_min (map date df)..list_max (map date df)]"
    using assms(2) d dense_dates[OF assms(1)]
    by (intro sorted_distinct_set_unique) simp_all
  then have "filled_rows df = map (reindex_row df) (map date df)"
    by (simp add: filled_rows_def)
  also have "\<dots> = map (\<lambda>r. r) df"
    unfolding map_map comp_def by (rule map_cong[OF refl]) (simp add: reindex_row_present[OF d])
  finally show ?thesis by simp
qed

lemma prepared_dense_sorted:
  assumes "dense df" "sorted (map date df)"
  shows "prepared df \<noteq> []" "map daily_sales (prepared df) = map daily_sales df"
proof -
  have v: "df \<noteq> []" "distinct (map date df)" using assms(1) by (simp_all add: dense_def)
  let ?ts = "map (\<lambda>i. add_features (map daily_sales df) i (df ! i)) [0..<length df]"
  have f: "filled_rows df = df" by (rule dense_sorted_filled[OF assms])
  have p: "prepared df = ?ts"
    using prepare_time_series_Inr[OF v] by (simp add: prepared_def f)
  have b: "map base_row ?ts = df" by (rule base_rows_prepared)
  have "map daily_sales ?ts = map daily_sales (map base_row ?ts)"
    by (simp add: base_row_def comp_def)
  also have "\<dots> = map daily_sales df" by (simp only: b)
  finally show "map daily_sales (prepared df) = map daily_sales df"
    by (simp only: p)
  have "length ?ts = length df" by simp
  then show "prepared df \<noteq> []" unfolding p using v(1) by (metis length_0_conv)
qed

text \<open>
  Claim C8. On a dense input series the preparer returns a series whose dates are the
  days from the first to the last date of the input, each once: the same dates as the
  input, as many rows as the input, and the same base rows (date, sales, order count,
  average order value) as the input; when the input is in date order the base columns
  of the result are the input itself, row by row. Preparing the base columns of the
  result again gives the same result.
\<close>

theorem dense_fill_idempotent:
  assumes "dense df"
  shows "\<exists>ts. prepare_time_series df = Inr ts
          \<and> map date ts = [list_min (map date df)..list_max (map date df)]
          \<and> distinct (map date ts)
          \<and> set (map date ts) = set (map date df)
          \<and> length ts = length df
          \<and> set (map base_row ts) = set df
          \<and> (sorted (map date df) \<longrightarrow> map base_row ts = df)
          \<and> prepare_time_series (map base_row ts) = Inr ts"
proof -
  have v: "df \<noteq> []" "distinct (map date df)" using assms by (simp_all add: dense_def)
  let ?f = "filled_rows df"
  let ?ts = "map (\<lambda>i. add_features (map daily_sales ?f) i (?f ! i)) [0..<length ?f]"
  have p: "prepare_time_series df = Inr ?ts" by (rule prepare_time_series_Inr[OF v])
  have b: "map base_row ?ts = ?f" by (rule base_rows_prepared)
  have "map date ?ts = map date (map base_row ?ts)"
    by (simp add: base_row_def comp_def)
  then have dates: "map date ?ts = [list_min (map date df)..list_max (map date df)]"
    unfolding b by (simp add: map_date_filled_rows)
  have dist: "distinct (map date ?ts)" unfolding dates by simp
  have sets: "set (map date ?ts) = set (map date df)"
    unfolding dates using dense_dates[OF assms] by simp
  have "length (map date ?ts) = card (set (map date ?ts))"
    using dist by (simp only: distinct_card)
  also have "\<dots> = card (set (map date df))" by (simp only: sets)
  also have "\<dots> = length (map date df)" using v(2) by (simp only: distinct_card)
  finally have len: "length ?ts = length df" by simp
  have rows: "set (map base_row ?ts) = set df"
    unfolding b by (rule dense_filled_set[OF assms])
  have srt: "sorted (map date df) \<longrightarrow> map base_row ?ts = df"
    unfolding b using dense_sorted_filled[OF assms] by blast
  have idem: "prepare_time_series (map base_row ?ts) = Inr ?ts"
    by (rule prepare_time_series_idem[OF p])
  show ?thesis using p dates dist sets len rows srt idem by blast
qed

theorem dense_fill_idempotent_witness:
  "dense declining_days
   \<and> (\<exists>ts. prepare_time_series declining_days = Inr ts
          \<and> map base_row ts = declining_days
          \<and> map date ts = [19728, 19729, 19730]
          \<and> prepare_time_series (map base_row ts) = Inr ts)"
proof -
  have d: "dense declining_days" by code_simp
  have s: "sorted (map date declining_days)" by (simp add: declining_days_def)
  have r: "[list_min (map date declining_days)..list_max (map date declining_days)]
           = [19728, 19729, 19730]" by code_simp
  show ?thesis using dense_fill_idempotent [OF d] d s r by auto
qed

section \<open>The trend analyzer\<close>

subsection \<open>The regression on the day index always returns\<close>

lemma arange_length: "length (arange a b) = b - a"
  by (simp add: arange_def)

lemma arange_Nil_iff: "arange 0 n = [] \<longleftrightarrow> n = 0"
  by (simp add: arange_def)

lemma hd_arange: "0 < n \<Longrightarrow> hd (arange 0 n) = 0"
  by (simp add: arange_def hd_map upt_conv_Cons)

lemma arange_not_identical:
  assumes "2 \<le> n"
  shows "\<not> (\<forall>v \<in> set (arange 0 n). v = hd (arange 0 n))"
proof -
  have "(1::rat) \<in> set (arange 0 n)"
  proof -
    have "1 \<in> set [0..<n]" using assms by simp
    then have "of_nat 1 \<in> set (arange 0 n)" unfolding arange_def by (simp only: set_map image_eqI)
    then show ?thesis by simp
  qed
  moreover have "hd (arange 0 n) = 0" using assms by (simp add: hd_arange)
  ultimately show ?thesis by force
qed

lemma linregress_arange_returns:
  assumes "y \<noteq> []"
  shows "\<exists>s c r. linregress (arange 0 (length y)) y = Inr (s, c, r)"
proof (cases "2 \<le> length y")
  case True
  then show ?thesis
    using assms arange_not_identical[OF True]
    by (simp add: linregress_def Let_def arange_Nil_iff)
next
  case False
  then have "length (arange 0 (length y)) \<le> 1" by (simp add: arange_length)
  then show ?thesis
    using assms by (simp add: linregress_def Let_def arange_Nil_iff)
qed

lemma mean_NaN_iff: "mean xs = NaN \<longleftrightarrow> xs = []"
  by (simp add: mean_def)

lemma iloc_m60_m30_Nil_iff: "iloc_m60_m30 xs = [] \<longleftrightarrow> length xs \<le> 30"
  by (auto simp: iloc_m60_m30_def)

lemma tail_Nil_iff: "tail n xs = [] \<longleftrightarrow> xs = [] \<or> n = 0"
proof -
  have "length xs \<le> length xs - n \<longleftrightarrow> length xs = 0 \<or> n = 0" by arith
  then show ?thesis by (simp add: tail_def)
qed

lemma growth_30d_cases:
  "growth_30d (Fin c) (Fin p) = (if p > 0 then Fin ((c - p) / p * 100) else Fin 0)"
  "growth_30d (Fin c) NaN = Fin 0"
  by (simp_all add: growth_30d_def fsub_def)

text \<open>
  Claim C7, amended. For every non-empty prepared series the analysis returns, and the
  reported 30-day growth is 0 whenever the mean of the preceding window is exactly 0,
  and also whenever it is negative or undefined (the series has at most 30 days, so
  the preceding window is empty); when the preceding mean is positive the growth is
  (trailing mean - preceding mean) / preceding mean * 100.
\<close>

theorem growth_guard:
  assumes "ts_df \<noteq> []"
  shows "\<exists>t c. analyze_trends ts_df = Inr t
           \<and> current_avg t = mean (tail 30 (map daily_sales ts_df))
           \<and> current_avg t = Fin c
           \<and> previous_avg t = mean (iloc_m60_m30 (map daily_sales ts_df))
           \<and> (previous_avg t = Fin 0 \<longrightarrow> last_30d_growth t = Fin 0)
           \<and> (\<forall>p. previous_avg t = Fin p \<and> p > 0 \<longrightarrow>
                  last_30d_growth t = Fin ((c - p) / p * 100))
           \<and> (\<forall>p. previous_avg t = Fin p \<and> p < 0 \<longrightarrow> last_30d_growth t = Fin 0)
           \<and> (previous_avg t = NaN \<longrightarrow> last_30d_growth t = Fin 0)
           \<and> (previous_avg t = NaN \<longleftrightarrow> length ts_df \<le> 30)"
proof -
  let ?y = "map daily_sales ts_df"
  have ne: "?y \<noteq> []" using assms by simp
  from linregress_arange_returns[OF ne] obtain s i r where
    lr: "linregress (arange 0 (length ts_df)) ?y = Inr (s, i, r)" by auto
  obtain c where c: "mean (tail 30 ?y) = Fin c"
    using ne by (auto simp: mean_def tail_Nil_iff)
  define t where "t = (case analyze_trends ts_df of Inr t \<Rightarrow> t)"
  have at: "analyze_trends ts_df = Inr t"
    unfolding t_def using lr by (simp add: analyze_trends_def Let_def)
  have cur: "current_avg t = mean (tail 30 ?y)"
    and prev: "previous_avg t = mean (iloc_m60_m30 ?y)"
    and g: "last_30d_growth t = growth_30d (mean (tail 30 ?y)) (mean (iloc_m60_m30 ?y))"
    unfolding t_def using lr by (simp_all add: analyze_trends_def Let_def)
  have nan: "previous_avg t = NaN \<longleftrightarrow> length ts_df \<le> 30"
    unfolding prev by (simp add: mean_NaN_iff iloc_m60_m30_Nil_iff)
  have "previous_avg t = Fin 0 \<longrightarrow> last_30d_growth t = Fin 0"
    unfolding g prev[symmetric] c by (simp add: growth_30d_cases)
  moreover have "\<forall>p. previous_avg t = Fin p \<and> p > 0 \<longrightarrow>
                  last_30d_growth t = Fin ((c - p) / p * 100)"
    unfolding g prev[symmetric] c by (simp add: growth_30d_cases)
  moreover have "\<forall>p. previous_avg t = Fin p \<and> p < 0 \<longrightarrow> last_30d_growth t = Fin 0"
    unfolding g prev[symmetric] c by (simp add: growth_30d_cases)
  moreover have "previous_avg t = NaN \<longrightarrow> last_30d_growth t = Fin 0"
    unfolding g prev[symmetric] c by (simp add: growth_30d_cases)
  ultimately show ?thesis using at cur prev c nan by auto
qed

subsection \<open>The growth figure and the other ratios on concrete series\<close>

text \<open>
  Claim C7, as stated, fails on the two-day series: the preceding window is empty, its
  mean is not-a-number and not zero, the formula of the claim gives not-a-number, and
  the reported growth is 0. It fails as well where the preceding mean is negative
  (a recent mean of 5 after a preceding mean of -10): the formula gives -150, the
  reported growth is 0.
\<close>

theorem growth_short_series:
  "map_sum id (\<lambda>t. (current_avg t, previous_avg t, last_30d_growth t))
       (analyze_trends (prepared two_days)) = Inr (Fin 15, NaN, Fin 0)
   \<and> fmul (fdiv (fsub (Fin 15) NaN) NaN) (Fin 100) = NaN
   \<and> growth_30d (Fin 5) (Fin (- 10)) = Fin 0
   \<and> fmul (fdiv (fsub (Fin 5) (Fin (- 10))) (Fin (- 10))) (Fin 100) = Fin (- 150)"
proof -
  have "map_sum id (\<lambda>t. (current_avg t, previous_avg t, last_30d_growth t))
       (analyze_trends (prepared two_days)) = Inr (Fin 15, NaN, Fin 0)"
    by code_simp
  then show ?thesis by (simp add: fsub_def growth_30d_def)
qed

lemma first_then_twenty_growth:
  assumes d: "dense (first_then_twenty p)" and s: "sorted (map date (first_then_twenty p))"
    and prev: "mean (iloc_m60_m30 (map daily_sales (first_then_twenty p))) = Fin p"
    and cur: "mean (tail 30 (map daily_sales (first_then_twenty p))) = Fin 20"
  shows "prepared (first_then_twenty p) \<noteq> []"
    and "mean (iloc_m60_m30 (map daily_sales (prepared (first_then_twenty p)))) = Fin p"
    and "mean (tail 30 (map daily_sales (prepared (first_then_twenty p)))) = Fin 20"
  using prepared_dense_sorted[OF d s] prev cur by simp_all

theorem growth_guard_witness:
  "prepared two_days \<noteq> []
   \<and> (\<exists>t. analyze_trends (prepared two_days) = Inr t
          \<and> previous_avg t = NaN \<and> last_30d_growth t = Fin 0)
   \<and> prepared (first_then_twenty 10) \<noteq> []
   \<and> (\<exists>t. analyze_trends (prepared (first_then_twenty 10)) = Inr t
          \<and> previous_avg t = Fin 10 \<and> current_avg t = Fin 20 \<and> last_30d_growth t = Fin 100)
   \<and> (\<exists>t. analyze_trends (prepared (first_then_twenty 0)) = Inr t
          \<and> previous_avg t = Fin 0 \<and> current_avg t = Fin 20 \<and> last_30d_growth t = Fin 0)
   \<and> (\<exists>t. analyze_trends (prepared (first_then_twenty (- 10))) = Inr t
          \<and> previous_avg t = Fin (- 10) \<and> current_avg t = Fin 20 \<and> last_30d_growth t = Fin 0)"
proof -
  have ne: "prepared two_days \<noteq> []" by code_simp
  have len: "length (prepared two_days) \<le> 30" by code_simp
  have a: "\<exists>t. analyze_trends (prepared two_days) = Inr t
          \<and> previous_avg t = NaN \<and> last_30d_growth t = Fin 0"
    using growth_guard [OF ne] len by blast
  have b: "prepared (first_then_twenty p) \<noteq> [] \<and>
           (\<exists>t. analyze_trends (prepared (first_then_twenty p)) = Inr t
              \<and> previous_avg t = Fin p \<and> current_avg t = Fin 20
              \<and> last_30d_growth t = (if p > 0 then Fin ((20 - p) / p * 100) else Fin 0))"
    if d: "dense (first_then_twenty p)" and s: "sorted (map date (first_then_twenty p))"
      and prev: "mean (iloc_m60_m30 (map daily_sales (first_then_twenty p))) = Fin p"
      and cur: "mean (tail 30 (map daily_sales (first_then_twenty p))) = Fin 20" for p
  proof -
    note f = first_then_twenty_growth[OF d s prev cur]
    from growth_guard [OF f(1)] obtain t c where
      t: "analyze_trends (prepared (first_then_twenty p)) = Inr t"
         "current_avg t = mean (tail 30 (map daily_sales (prepared (first_then_twenty p))))"
         "current_avg t = Fin c"
         "previous_avg t = mean (iloc_m60_m30 (map daily_sales (prepared (first_then_twenty p))))"
         "previous_avg t = Fin 0 \<longrightarrow> last_30d_growth t = Fin 0"
         "\<forall>q. previous_avg t = Fin q \<and> q > 0 \<longrightarrow> last_30d_growth t = Fin ((c - q) / q * 100)"
         "\<forall>q. previous_avg t = Fin q \<and> q < 0 \<longrightarrow> last_30d_growth t = Fin 0"
      by blast
    have c: "c = 20" using t(2,3) f(3) by simp
    have pv: "previous_avg t = Fin p" using t(4) f(2) by simp
    have "last_30d_growth t = (if p > 0 then Fin ((20 - p) / p * 100) else Fin 0)"
      using t(5,6,7) pv c by (cases "p > 0"; cases "p = 0") auto
    then show ?thesis using f(1) t(1,3) pv c by auto
  qed
  have b10: "prepared (first_then_twenty 10) \<noteq> [] \<and>
           (\<exists>t. analyze_trends (prepared (first_then_twenty 10)) = Inr t
              \<and> previous_avg t = Fin 10 \<and> current_avg t = Fin 20
              \<and> last_30d_growth t = Fin 100)"
  proof -
    have "dense (first_then_twenty 10)" by code_simp
    moreover have "sorted (map date (first_then_twenty 10))" by code_simp
    moreover have "mean (iloc_m60_m30 (map daily_sales (first_then_twenty 10))) = Fin 10"
      by code_simp
    moreover have "mean (tail 30 (map daily_sales (first_then_twenty 10))) = Fin 20"
      by code_simp
    ultimately show ?thesis using b[of 10] by simp
  qed
  have b0: "\<exists>t. analyze_trends (prepared (first_then_twenty 0)) = Inr t
              \<and> previous_avg t = Fin 0 \<and> current_avg t = Fin 20
              \<and> last_30d_growth t = Fin 0"
  proof -
    have "dense (first_then_twenty 0)" by code_simp
    moreover have "sorted (map date (first_then_twenty 0))" by code_simp
    moreover have "mean (iloc_m60_m30 (map daily_sales (first_then_twenty 0))) = Fin 0"
      by code_simp
    moreover have "mean (tail 30 (map daily_sales (first_then_twenty 0))) = Fin 20"
      by code_simp
    ultimately show ?thesis using b[of 0] by simp
  qed
  have bm: "\<exists>t. analyze_trends (prepared (first_then_twenty (- 10))) = Inr t
              \<and> previous_avg t = Fin (- 10) \<and> current_avg t = Fin 20
              \<and> last_30d_growth t = Fin 0"
  proof -
    have "dense (first_then_twenty (- 10))" by code_simp
    moreover have "sorted (map date (first_then_twenty (- 10)))" by code_simp
    moreover have "mean (iloc_m60_m30 (map daily_sales (first_then_twenty (- 10)))) = Fin (- 10)"
      by code_simp
    moreover have "mean (tail 30 (map daily_sales (first_then_twenty (- 10)))) = Fin 20"
      by code_simp
    ultimately show ?thesis using b[of "- 10"] by simp
  qed
  show ?thesis using ne a b10 b0 bm by blast
qed

text \<open>
  Claim C6 (evaluation). With sales on two Saturdays only, the weekday mean is 0 and
  the weekend-to-weekday ratio is plus infinity. With two days without revenue (a
  Saturday and a Sunday) the overall mean is 0: the monthly variation is 0 divided
  by 0, not-a-number, and so is every value of the seasonal forecast, whose factors
  are 0 divided by 0. The weekend-to-weekday ratio of this series is not-a-number
  too, here because the series has no weekday and the mean of no values is its
  divisor. The growth figure of the same series is guarded and is 0.
\<close>

theorem unguarded_ratios:
  "map_sum id weekend_vs_weekday (analyze_trends (prepared saturdays_only)) = Inr PInf
   \<and> map_sum id (\<lambda>t. (monthly_variation t, weekend_vs_weekday t, last_30d_growth t))
        (analyze_trends (prepared zero_days)) = Inr (NaN, NaN, Fin 0)
   \<and> seasonal_forecast (prepared zero_days) 3 = Inr [NaN, NaN, NaN]"
  by code_simp

section \<open>The forecast engine\<close>

subsection \<open>Values that are not negative, values that are finite\<close>

lemma not_negative_fadd:
  "\<not> is_negative a \<Longrightarrow> \<not> is_negative b \<Longrightarrow> \<not> is_negative (fadd a b)"
  by (cases a; cases b) simp_all

lemma not_negative_fmul:
  "\<not> is_negative a \<Longrightarrow> \<not> is_negative b \<Longrightarrow> \<not> is_negative (fmul a b)"
  by (cases a; cases b) (simp_all add: inf_of_sign_def mult_nonneg_nonneg not_less)

lemma not_negative_fdiv:
  "\<not> is_negative a \<Longrightarrow> \<not> is_negative b \<Longrightarrow> \<not> is_negative (fdiv a b)"
  by (cases a; cases b) (auto simp: inf_of_sign_def not_less divide_nonneg_nonneg)

lemma not_negative_fmax0: "\<not> is_negative (fmax0 a)"
  by (cases a) simp_all

lemma is_finite_fadd: "is_finite a \<Longrightarrow> is_finite b \<Longrightarrow> is_finite (fadd a b)"
  by (cases a; cases b) simp_all

lemma is_finite_fmul: "is_finite a \<Longrightarrow> is_finite b \<Longrightarrow> is_finite (fmul a b)"
  by (cases a; cases b) simp_all

lemma is_finite_fdiv: "is_finite a \<Longrightarrow> c \<noteq> 0 \<Longrightarrow> is_finite (fdiv a (Fin c))"
  by (cases a) simp_all

lemma is_finite_fmax0: "is_finite a \<Longrightarrow> is_finite (fmax0 a)"
  by (cases a) simp_all

lemma is_finite_fsub: "is_finite a \<Longrightarrow> is_finite b \<Longrightarrow> is_finite (fsub a b)"
  by (cases a; cases b) (simp_all add: fsub_def)

lemma sum_squares_zero:
  fixes x :: "rat list"
  assumes "sum_list (map (\<lambda>v. (v - c) * (v - c)) x) = 0" "v \<in> set x"
  shows "v = c"
proof -
  have "\<forall>w \<in> set (map (\<lambda>v. (v - c) * (v - c)) x). 0 \<le> w" by auto
  then have "\<forall>w \<in> set (map (\<lambda>v. (v - c) * (v - c)) x). w = 0"
    using assms(1) by (simp only: sum_list_nonneg_eq_0_iff)
  then have "(v - c) * (v - c) = 0" using assms(2) by auto
  then show ?thesis by simp
qed

lemma linregress_arange_finite:
  assumes "2 \<le> length y"
  shows "\<exists>s c r. linregress (arange 0 (length y)) y = Inr (Fin s, Fin c, r)"
proof -
  let ?x = "arange 0 (length y)"
  let ?n = "of_nat (length ?x) :: rat"
  let ?xm = "sum_list ?x / ?n"
  let ?ss = "sum_list (map (\<lambda>v. (v - ?xm) * (v - ?xm)) ?x)"
  have n: "?n \<noteq> 0" using assms by (auto simp: arange_length)
  have "?ss \<noteq> 0"
  proof
    assume z: "?ss = 0"
    have "(0::rat) \<in> set ?x" "(1::rat) \<in> set ?x"
      using assms by (auto simp: arange_def image_iff intro: bexI[of _ 0] bexI[of _ 1])
    then have "(0::rat) = ?xm" "(1::rat) = ?xm"
      using sum_squares_zero[OF z] by blast+
    then show False by simp
  qed
  then have nz: "?ss / ?n \<noteq> 0" using n by simp
  have ne: "?x \<noteq> []" "y \<noteq> []" using assms by (auto simp: arange_Nil_iff)
  show ?thesis
    using ne arange_not_identical[OF assms] nz
    by (simp add: linregress_def Let_def fsub_def)
qed

subsection \<open>The linear-trend and the seasonal forecast\<close>

lemma linear_trend_forecast_returns:
  assumes "ts_df \<noteq> []"
  shows "\<exists>fc. linear_trend_forecast ts_df h = Inr fc \<and> length fc = h
            \<and> (\<forall>v \<in> set fc. \<not> is_negative v)
            \<and> (2 \<le> length ts_df \<longrightarrow> (\<forall>v \<in> set fc. is_finite v))"
proof -
  let ?y = "tail 90 (map daily_sales ts_df)"
  have ne: "?y \<noteq> []" using assms by (simp add: tail_Nil_iff)
  from linregress_arange_returns[OF ne] obtain s c r where
    lr: "linregress (arange 0 (length ?y)) ?y = Inr (s, c, r)" by auto
  let ?fc = "map fmax0 (map (\<lambda>fx. fadd (fmul s (Fin fx)) c)
                (arange (length ?y) (length ?y + h)))"
  have eq: "linear_trend_forecast ts_df h = Inr ?fc"
    using lr by (simp add: linear_trend_forecast_def Let_def)
  have len: "length ?fc = h" by (simp add: arange_length)
  have nn: "\<forall>v \<in> set ?fc. \<not> is_negative v" by (auto simp: not_negative_fmax0)
  have fin: "\<forall>v \<in> set ?fc. is_finite v" if "2 \<le> length ts_df"
  proof -
    have "2 \<le> length ?y" using that by (simp add: tail_def)
    from linregress_arange_finite[OF this] lr obtain s' c' where "s = Fin s'" "c = Fin c'"
      by auto
    then show ?thesis by auto
  qed
  show ?thesis using eq len nn fin by blast
qed

lemma group_means_nonneg:
  assumes "\<forall>r \<in> set ts. 0 \<le> daily_sales r" "(k, v) \<in> set (group_means key ts)"
  shows "0 \<le> v"
proof -
  let ?g = "map daily_sales (filter (\<lambda>r. key r = k) ts)"
  have v: "v = sum_list ?g / of_nat (length ?g)"
    using assms(2) by (auto simp: group_means_def Let_def)
  have "\<forall>w \<in> set ?g. 0 \<le> w" using assms(1) by auto
  then have "0 \<le> sum_list ?g" by (simp only: sum_list_nonneg)
  then show ?thesis unfolding v by simp
qed

lemma mean_not_negative:
  assumes "\<forall>w \<in> set xs. 0 \<le> w"
  shows "\<not> is_negative (mean xs)"
  using assms by (simp add: mean_def sum_list_nonneg not_less)

lemma get_factor_not_negative:
  assumes "\<forall>r \<in> set ts. 0 \<le> daily_sales r"
  shows "\<not> is_negative (get_factor (factors key ts (mean (map daily_sales ts))) k)"
proof (cases "map_of (factors key ts (mean (map daily_sales ts))) k")
  case None
  then show ?thesis by (simp add: get_factor_def)
next
  case (Some f)
  then have "(k, f) \<in> set (factors key ts (mean (map daily_sales ts)))"
    by (rule map_of_SomeD)
  then obtain v where v: "(k, v) \<in> set (group_means (\<lambda>r. key (date r)) ts)"
    and f: "f = fdiv (Fin v) (mean (map daily_sales ts))"
    by (auto simp: factors_def)
  have "0 \<le> v" using group_means_nonneg[OF assms v] .
  moreover have "\<not> is_negative (mean (map daily_sales ts))"
    using assms by (intro mean_not_negative) auto
  ultimately have "\<not> is_negative f" unfolding f by (intro not_negative_fdiv) simp_all
  then show ?thesis using Some by (simp add: get_factor_def)
qed

lemma get_factor_finite:
  assumes "mean (map daily_sales ts) = Fin mu" "mu \<noteq> 0"
  shows "is_finite (get_factor (factors key ts (mean (map daily_sales ts))) k)"
proof (cases "map_of (factors key ts (mean (map daily_sales ts))) k")
  case None
  then show ?thesis by (simp add: get_factor_def)
next
  case (Some f)
  then have "(k, f) \<in> set (factors key ts (mean (map daily_sales ts)))"
    by (rule map_of_SomeD)
  then obtain v where "f = fdiv (Fin v) (mean (map daily_sales ts))"
    by (auto simp: factors_def)
  then have "is_finite f" using assms by simp
  then show ?thesis using Some by (simp add: get_factor_def)
qed

lemma mean_positive:
  assumes "\<forall>r \<in> set ts. 0 \<le> daily_sales r" "\<exists>r \<in> set ts. 0 < daily_sales r"
  shows "\<exists>mu. mean (map daily_sales ts) = Fin mu \<and> mu \<noteq> 0"
proof -
  have ne: "ts \<noteq> []" using assms(2) by auto
  have nn: "\<forall>w \<in> set (map daily_sales ts). 0 \<le> w" using assms(1) by auto
  have "sum_list (map daily_sales ts) \<noteq> 0"
  proof
    assume "sum_list (map daily_sales ts) = 0"
    then have "\<forall>w \<in> set (map daily_sales ts). w = 0"
      using nn by (simp only: sum_list_nonneg_eq_0_iff)
    then show False using assms(2) by auto
  qed
  then show ?thesis using ne by (simp add: mean_def)
qed

text \<open>
  Claim C4. For every non-empty prepared series and every horizon \<open>h\<close> the linear-trend
  forecast returns \<open>h\<close> values, none of them negative, whatever the fitted slope; they
  are finite numbers when the series has two days or more. When no daily sales value
  is negative the seasonal forecast returns \<open>h\<close> values, none of them negative: each
  is the clamped projection times a factor that is not negative. They are finite
  numbers when the series has two days or more and some day has sales.
\<close>

theorem forecasts_never_negative:
  assumes "ts_df \<noteq> []"
  shows "(\<exists>fc. linear_trend_forecast ts_df h = Inr fc \<and> length fc = h
            \<and> (\<forall>v \<in> set fc. \<not> is_negative v)
            \<and> (2 \<le> length ts_df \<longrightarrow> (\<forall>v \<in> set fc. is_finite v)))
       \<and> ((\<forall>r \<in> set ts_df. 0 \<le> daily_sales r) \<longrightarrow>
            (\<exists>fc. seasonal_forecast ts_df h = Inr fc \<and> length fc = h
               \<and> (\<forall>v \<in> set fc. \<not> is_negative v)
               \<and> (2 \<le> length ts_df \<and> (\<exists>r \<in> set ts_df. 0 < daily_sales r) \<longrightarrow>
                    (\<forall>v \<in> set fc. is_finite v))))"
proof -
  from linear_trend_forecast_returns[OF assms, of h] obtain base where
    b: "linear_trend_forecast ts_df h = Inr base" "length base = h"
       "\<forall>v \<in> set base. \<not> is_negative v"
       "2 \<le> length ts_df \<longrightarrow> (\<forall>v \<in> set base. is_finite v)"
    by blast
  let ?om = "mean (map daily_sales ts_df)"
  let ?sf = "\<lambda>d. fdiv (fadd (get_factor (factors month_of ts_df ?om) (month_of d))
                            (get_factor (factors dayofweek ts_df ?om) (dayofweek d))) (Fin 2)"
  let ?fc = "map (\<lambda>(i, d). fmul (base ! i) (?sf d))
                 (zip [0..<h] (map (\<lambda>i. date (last ts_df) + 1 + int i) [0..<h]))"
  have eq: "seasonal_forecast ts_df h = Inr ?fc"
    using b(1) by (simp add: seasonal_forecast_def Let_def)
  have len: "length ?fc = h" by simp
  have nn: "\<forall>v \<in> set ?fc. \<not> is_negative v" if s: "\<forall>r \<in> set ts_df. 0 \<le> daily_sales r"
  proof
    fix v assume "v \<in> set ?fc"
    then obtain i d where i: "i < h" and v: "v = fmul (base ! i) (?sf d)"
      by (auto simp: set_zip)
    have "\<not> is_negative (base ! i)" using b(2,3) i by simp
    moreover have "\<not> is_negative (?sf d)"
      by (intro not_negative_fdiv not_negative_fadd get_factor_not_negative s) simp
    ultimately show "\<not> is_negative v" unfolding v by (rule not_negative_fmul)
  qed
  have fin: "\<forall>v \<in> set ?fc. is_finite v"
    if s: "\<forall>r \<in> set ts_df. 0 \<le> daily_sales r"
      and l: "2 \<le> length ts_df" and p: "\<exists>r \<in> set ts_df. 0 < daily_sales r"
  proof
    fix v assume "v \<in> set ?fc"
    then obtain i d where i: "i < h" and v: "v = fmul (base ! i) (?sf d)"
      by (auto simp: set_zip)
    from mean_positive[OF s p] obtain mu where mu: "?om = Fin mu" "mu \<noteq> 0" by blast
    have "is_finite (base ! i)" using b(2,4) i l by simp
    moreover have "is_finite (?sf d)"
      by (intro is_finite_fdiv is_finite_fadd get_factor_finite[OF mu]) simp
    ultimately show "is_finite v" unfolding v by (rule is_finite_fmul)
  qed
  show ?thesis using b eq len nn fin by blast
qed

theorem forecasts_never_negative_witness:
  "prepared declining_days \<noteq> []
   \<and> list_all (\<lambda>r. 0 \<le> daily_sales r) (prepared declining_days)
   \<and> map_sum id trend_slope (analyze_trends (prepared declining_days)) = Inr (Fin (- 50))
   \<and> linear_trend_forecast (prepared declining_days) 3 = Inr [Fin 0, Fin 0, Fin 0]
   \<and> (\<exists>fc. seasonal_forecast (prepared declining_days) 3 = Inr fc \<and> length fc = 3
          \<and> list_all (\<lambda>v. \<not> is_negative v) fc \<and> list_all is_finite fc)"
proof -
  have ne: "prepared declining_days \<noteq> []" by code_simp
  have nn: "list_all (\<lambda>r. 0 \<le> daily_sales r) (prepared declining_days)" by code_simp
  have sl: "map_sum id trend_slope (analyze_trends (prepared declining_days)) = Inr (Fin (- 50))"
    by code_simp
  have lin: "linear_trend_forecast (prepared declining_days) 3 = Inr [Fin 0, Fin 0, Fin 0]"
    by code_simp
  have two: "2 \<le> length (prepared declining_days)" by code_simp
  have "list_ex (\<lambda>r. 0 < daily_sales r) (prepared declining_days)" by code_simp
  then have pos: "\<exists>r \<in> set (prepared declining_days). 0 < daily_sales r"
    by (simp only: list_ex_iff)
  from nn have nn': "\<forall>r \<in> set (prepared declining_days). 0 \<le> daily_sales r"
    by (simp only: list_all_iff)
  from forecasts_never_negative [OF ne, of 3] nn' two pos
  obtain fc where "seasonal_forecast (prepared declining_days) 3 = Inr fc" "length fc = 3"
    "\<forall>v \<in> set fc. \<not> is_negative v" "\<forall>v \<in> set fc. is_finite v" by blast
  then have "\<exists>fc. seasonal_forecast (prepared declining_days) 3 = Inr fc \<and> length fc = 3
          \<and> list_all (\<lambda>v. \<not> is_negative v) fc \<and> list_all is_finite fc"
    by (auto simp only: list_all_iff)
  then show ?thesis using ne nn sl lin by blast
qed

end
